theory Spec2Isabelle
  imports Complex_Main "HOL-Library.Log_Nat" "HOL-Library.Word"
begin

section \<open>Python values: exceptions and floats\<close>

text \<open>
  The program is \<^verbatim>\<open>src/main.py\<close>. Every exception it can raise is a value of
  \<open>py_error\<close>; a computation that may raise has the type \<open>py_error + 'a\<close>, and
  \<open>py_bind\<close> sequences two of them: the first exception wins, as in Python.
\<close>

datatype py_error = OverflowError | ZeroDivisionError | KeyError | RequestException

definition py_bind :: "py_error + 'a \<Rightarrow> ('a \<Rightarrow> py_error + 'b) \<Rightarrow> py_error + 'b" where
  "py_bind m f = (case m of Inl e \<Rightarrow> Inl e | Inr v \<Rightarrow> f v)"

fun py_sequence :: "(py_error + 'a) list \<Rightarrow> py_error + 'a list" where
  "py_sequence [] = Inr []"
| "py_sequence (m # ms) = py_bind m (\<lambda>v. py_bind (py_sequence ms) (\<lambda>vs. Inr (v # vs)))"

text \<open>
  A Python \<^verbatim>\<open>float\<close> is an IEEE 754 binary64 number: a finite value (a real that
  is a multiple of a power of two with a 53-bit significand), an infinity or a NaN.
  The two zeros are one value here: the program never looks at the sign of a zero.
  Each arithmetic operation returns the exact result rounded to the nearest
  representable value, ties to the even significand (\<open>rnd\<close>).
\<close>

datatype pyfloat = Fin real | PInf | NInf | NaN

definition round_even :: "real \<Rightarrow> int" where
  "round_even t =
     (let f = \<lfloor>t\<rfloor>; d = t - of_int f
      in if d < 1 / 2 then f else if 1 / 2 < d then f + 1 else if even f then f else f + 1)"

text \<open>The binary exponent of a positive real: \<open>2 powi ilog2 q \<le> q < 2 powi (ilog2 q + 1)\<close>.\<close>

definition ilog2 :: "real \<Rightarrow> int" where
  "ilog2 q = (if 1 \<le> q then bitlen \<lfloor>q\<rfloor> - 1 else - bitlen (\<lceil>1 / q\<rceil> - 1))"

text \<open>
  The spacing of the binary64 numbers around \<open>q\<close>: 52 fraction bits below the
  exponent, which is never less than -1022 (below it the numbers are subnormal).
\<close>

definition ulp :: "real \<Rightarrow> real" where
  "ulp q = 2 powi (max (ilog2 \<bar>q\<bar>) (- 1022) - 52)"

definition rnd :: "real \<Rightarrow> pyfloat" where
  "rnd q =
     (if q = 0 then Fin 0
      else let r = of_int (round_even (q / ulp q)) * ulp q
           in if 2 ^ 1024 \<le> r then PInf else if r \<le> - (2 ^ 1024) then NInf else Fin r)"

text \<open>
  \<^verbatim>\<open>float(n)\<close> for an \<^verbatim>\<open>int\<close>, also where Python converts the integer operand
  of a mixed operation: the nearest float, or OverflowError
  (\<^verbatim>\<open>int too large to convert to float\<close>).
\<close>

definition float_of_int :: "int \<Rightarrow> py_error + pyfloat" where
  "float_of_int n = (case rnd (of_int n) of Fin r \<Rightarrow> Inr (Fin r) | _ \<Rightarrow> Inl OverflowError)"

fun fneg :: "pyfloat \<Rightarrow> pyfloat" where
  "fneg (Fin a) = Fin (- a)"
| "fneg PInf = NInf"
| "fneg NInf = PInf"
| "fneg NaN = NaN"

fun fadd :: "pyfloat \<Rightarrow> pyfloat \<Rightarrow> pyfloat" where
  "fadd (Fin a) (Fin b) = rnd (a + b)"
| "fadd NaN _ = NaN"
| "fadd _ NaN = NaN"
| "fadd PInf NInf = NaN"
| "fadd NInf PInf = NaN"
| "fadd PInf _ = PInf"
| "fadd _ PInf = PInf"
| "fadd NInf _ = NInf"
| "fadd _ NInf = NInf"

definition fsub :: "pyfloat \<Rightarrow> pyfloat \<Rightarrow> pyfloat" where
  "fsub a b = fadd a (fneg b)"

definition inf_of_sign :: "bool \<Rightarrow> pyfloat" where
  "inf_of_sign positive = (if positive then PInf else NInf)"

fun fmul :: "pyfloat \<Rightarrow> pyfloat \<Rightarrow> pyfloat" where
  "fmul (Fin a) (Fin b) = rnd (a * b)"
| "fmul NaN _ = NaN"
| "fmul _ NaN = NaN"
| "fmul (Fin a) PInf = (if a = 0 then NaN else inf_of_sign (0 < a))"
| "fmul (Fin a) NInf = (if a = 0 then NaN else inf_of_sign (a < 0))"
| "fmul PInf (Fin b) = (if b = 0 then NaN else inf_of_sign (0 < b))"
| "fmul NInf (Fin b) = (if b = 0 then NaN else inf_of_sign (b < 0))"
| "fmul PInf PInf = PInf"
| "fmul NInf NInf = PInf"
| "fmul PInf NInf = NInf"
| "fmul NInf PInf = NInf"

text \<open>
  Python's \<^verbatim>\<open>a / b\<close> on floats: ZeroDivisionError when the divisor is zero (checked
  before anything else), the IEEE quotient otherwise.
\<close>

fun truediv :: "pyfloat \<Rightarrow> pyfloat \<Rightarrow> py_error + pyfloat" where
  "truediv (Fin a) (Fin b) = (if b = 0 then Inl ZeroDivisionError else Inr (rnd (a / b)))"
| "truediv PInf (Fin b) = (if b = 0 then Inl ZeroDivisionError else Inr (inf_of_sign (0 < b)))"
| "truediv NInf (Fin b) = (if b = 0 then Inl ZeroDivisionError else Inr (inf_of_sign (b < 0)))"
| "truediv NaN (Fin b) = (if b = 0 then Inl ZeroDivisionError else Inr NaN)"
| "truediv _ NaN = Inr NaN"
| "truediv (Fin a) _ = Inr (Fin 0)"
| "truediv _ _ = Inr NaN"

text \<open>Python's \<^verbatim>\<open>a < b\<close> and \<^verbatim>\<open>a > b\<close> on floats: false when either side is a NaN.\<close>

fun flt :: "pyfloat \<Rightarrow> pyfloat \<Rightarrow> bool" where
  "flt (Fin a) (Fin b) = (a < b)"
| "flt NaN _ = False"
| "flt _ NaN = False"
| "flt _ NInf = False"
| "flt PInf _ = False"
| "flt _ _ = True"

definition fgt :: "pyfloat \<Rightarrow> pyfloat \<Rightarrow> bool" where
  "fgt a b = flt b a"

section \<open>Projection\<close>

type_synonym bbox = "pyfloat \<times> pyfloat \<times> pyfloat \<times> pyfloat"
type_synonym point = "pyfloat \<times> pyfloat"

text \<open>\<^verbatim>\<open>math.pi\<close>, the double \<^verbatim>\<open>0x1.921fb54442d18p+1\<close>.\<close>

definition math_pi :: pyfloat where
  "math_pi = Fin (884279719003555 / 2 ^ 48)"

definition earth_radius :: pyfloat where
  "earth_radius = Fin 6378137"

text \<open>
  \<^verbatim>\<open>calculate_bbox(z, x, y, tile_size=256)\<close>, lines 101 to 129. The arguments come from
  the route \<^verbatim>\<open>/<int:z>/<int:x>/<int:y>.png\<close>, whose converter accepts the
  non-negative integers only, so they are naturals of any size.
  \<^verbatim>\<open>tile_size * 2 ** z\<close> and \<^verbatim>\<open>x * tile_size\<close> are exact integer products; Python
  converts them to floats where they meet a float operand.
\<close>

definition calculate_bbox :: "nat \<Rightarrow> nat \<Rightarrow> nat \<Rightarrow> py_error + bbox" where
  "calculate_bbox z x y =
     py_bind (truediv (fmul (fmul (Fin 2) math_pi) earth_radius) (Fin 2)) (\<lambda>origin_shift.
     py_bind (float_of_int (256 * 2 ^ z)) (\<lambda>tiles.
     py_bind (truediv (fmul (Fin 2) origin_shift) tiles) (\<lambda>res.
     py_bind (float_of_int (int x * 256)) (\<lambda>fx.
     let minx = fsub (fmul fx res) origin_shift in
     py_bind (float_of_int ((int x + 1) * 256)) (\<lambda>fx1.
     let maxx = fsub (fmul fx1 res) origin_shift in
     py_bind (float_of_int ((int y + 1) * 256)) (\<lambda>fy1.
     let miny = fsub origin_shift (fmul fy1 res) in
     py_bind (float_of_int (int y * 256)) (\<lambda>fy.
     let maxy = fsub origin_shift (fmul fy res) in
     Inr (minx, miny, maxx, maxy))))))))"

text \<open>
  Quantities of the error analysis of \<open>calculate_bbox\<close>: the value of the variable
  \<^verbatim>\<open>origin_shift\<close> (20037508.342789244), the exact width of a tile at zoom \<open>z\<close>, and
  a bound on the distance between a computed edge and its exact value.
\<close>

definition origin_shift :: real where
  "origin_shift = 5378777689100435 / 2 ^ 28"

definition tile_span :: "nat \<Rightarrow> real" where
  "tile_span z = 2 * origin_shift / 2 ^ z"

definition bbox_error :: real where
  "bbox_error = 7 * origin_shift / 2 ^ 54"

section \<open>The environment of the program\<close>

text \<open>
  What the program takes from outside itself, fixed for one run of the process:
  \<^item> \<open>province_geometries\<close>: the dict that \<^verbatim>\<open>load_province_geometries\<close> fills from
    the GeoJSON file, as the list of its items in insertion order (the order in which
    \<^verbatim>\<open>.items()\<close> yields them), its keys distinct. A geometry is known by what
    shapely's \<^verbatim>\<open>geometry.contains(Point(lng, lat))\<close> answers.
  \<^item> \<open>math_exp\<close>, \<open>math_atan\<close>: the C library's functions behind \<^verbatim>\<open>math.exp\<close>
    (which raises OverflowError) and \<^verbatim>\<open>math.atan\<close>; their rounding is not specified.
  \<^item> \<open>set_order\<close>: the order in which CPython iterates over a \<^verbatim>\<open>set\<close> of strings
    that received the given elements in the given order. It depends on the hash seed of
    the process.
  \<^item> \<open>requests_get\<close>: \<^verbatim>\<open>requests.get(wms_url, params=params, timeout=10).content\<close>,
    the body of the upstream's response whatever its status, or the exception raised.
\<close>

type_synonym geometry = "point \<Rightarrow> bool"
type_synonym byte = "8 word"

record wms_params =
  service :: string
  version :: string
  request :: string
  layers :: string
  styles :: string
  bbox :: bbox
  width :: nat
  height :: nat
  srs :: string
  format :: string
  transparent :: string

record env =
  province_geometries :: "(string \<times> geometry) list"
  math_exp :: "pyfloat \<Rightarrow> py_error + pyfloat"
  math_atan :: "pyfloat \<Rightarrow> pyfloat"
  set_order :: "string list \<Rightarrow> string list"
  requests_get :: "wms_params \<Rightarrow> py_error + byte list"

text \<open>
  What every run of CPython guarantees of \<open>set_order\<close>: a set is iterated over
  element by element, each element once.
\<close>

definition set_order_ok :: "env \<Rightarrow> bool" where
  "set_order_ok e \<longleftrightarrow>
     (\<forall>xs. distinct xs \<longrightarrow> distinct (set_order e xs) \<and> set (set_order e xs) = set xs)"

text \<open>\<^verbatim>\<open>mercator_to_lnglat(x, y)\<close>, lines 132 to 137.\<close>

definition mercator_to_lnglat :: "env \<Rightarrow> pyfloat \<Rightarrow> pyfloat \<Rightarrow> py_error + point" where
  "mercator_to_lnglat e x y =
     py_bind (truediv x earth_radius) (\<lambda>xr.
     py_bind (truediv (fmul xr (Fin 180)) math_pi) (\<lambda>lng.
     py_bind (truediv y earth_radius) (\<lambda>yr.
     py_bind (math_exp e yr) (\<lambda>ex.
     py_bind (truediv math_pi (Fin 2)) (\<lambda>half_pi.
     py_bind (truediv (fmul (fsub (fmul (math_atan e ex) (Fin 2)) half_pi) (Fin 180)) math_pi) (\<lambda>lat.
     Inr (lng, lat)))))))"

text \<open>
  \<open>math_exp_defined e t\<close>: \<^verbatim>\<open>math.exp\<close> raises nothing on a finite argument up
  to \<open>t\<close>. On IEEE doubles this holds for \<open>t\<close> up to about 709.78.
\<close>

definition math_exp_defined :: "env \<Rightarrow> real \<Rightarrow> bool" where
  "math_exp_defined e t \<longleftrightarrow> (\<forall>a \<le> t. \<exists>r. math_exp e (Fin a) = Inr r)"

text \<open>The longitude that \<open>mercator_to_lnglat\<close> returns, which needs no C library.\<close>

definition longitude_of :: "pyfloat \<Rightarrow> py_error + pyfloat" where
  "longitude_of x =
     py_bind (truediv x earth_radius) (\<lambda>xr. truediv (fmul xr (Fin 180)) math_pi)"

section \<open>The group table\<close>

text \<open>\<^verbatim>\<open>PROVINCE_GROUPS\<close>, lines 12 to 19: the dict as its items in insertion order.\<close>

definition PROVINCE_GROUPS :: "(string \<times> string list) list" where
  "PROVINCE_GROUPS =
     [(''north'', [''12'', ''13'', ''14'', ''15'']),
      (''northeast'', [''21'', ''22'', ''23'']),
      (''east'', [''31'', ''32'', ''33'', ''34'', ''35'', ''36'', ''37'']),
      (''central'', [''41'', ''42'', ''43'', ''44'', ''45'', ''46'']),
      (''southwest'', [''50'', ''51'', ''52'', ''53'', ''54'']),
      (''northwest'', [''62'', ''63'', ''64'', ''65''])]"

text \<open>
  \<^verbatim>\<open>CODE_TO_GROUP\<close>, line 22: the comprehension stores the pairs in the order of the
  two loops, a later pair replacing an earlier one with the same code.
\<close>

definition CODE_TO_GROUP :: "string \<rightharpoonup> string" where
  "CODE_TO_GROUP =
     fold (\<lambda>(code, group) m. m(code \<mapsto> group))
       (concat (map (\<lambda>(group, codes). map (\<lambda>code. (code, group)) codes) PROVINCE_GROUPS))
       Map.empty"

text \<open>\<^verbatim>\<open>PROVINCE_GROUPS[key]\<close> and \<^verbatim>\<open>PROVINCE_GROUPS.get(key, [])\<close>.\<close>

definition province_group :: "string \<Rightarrow> py_error + string list" where
  "province_group key =
     (case map_of PROVINCE_GROUPS key of None \<Rightarrow> Inl KeyError | Some codes \<Rightarrow> Inr codes)"

definition province_group_get :: "string \<Rightarrow> string list" where
  "province_group_get key = (case map_of PROVINCE_GROUPS key of None \<Rightarrow> [] | Some codes \<Rightarrow> codes)"

text \<open>\<^verbatim>\<open>sum(PROVINCE_GROUPS.values(), [])\<close>, line 142.\<close>

definition all_province_codes :: "string list" where
  "all_province_codes = concat (map snd PROVINCE_GROUPS)"

section \<open>The resolver\<close>

text \<open>
  A Python \<^verbatim>\<open>set\<close> of strings is the list of its elements in the order they were first
  added; \<open>set_add\<close> is \<^verbatim>\<open>s.add(c)\<close>. Where the program iterates over a set, the model
  iterates over \<open>set_order\<close> of that list.
\<close>

definition set_add :: "string list \<Rightarrow> string \<Rightarrow> string list" where
  "set_add s c = (if c \<in> set s then s else s @ [c])"

text \<open>
  The nine sample points, lines 152 to 164: the center, the four corners and the four
  edge midpoints of the box, each through \<open>mercator_to_lnglat\<close>.
\<close>

definition coarse_points :: "env \<Rightarrow> bbox \<Rightarrow> py_error + point list" where
  "coarse_points e bb =
     (case bb of (minx, miny, maxx, maxy) \<Rightarrow>
        py_bind (truediv (fadd minx maxx) (Fin 2)) (\<lambda>center_x.
        py_bind (truediv (fadd miny maxy) (Fin 2)) (\<lambda>center_y.
        py_sequence
          [mercator_to_lnglat e center_x center_y,
           mercator_to_lnglat e minx miny,
           mercator_to_lnglat e maxx miny,
           mercator_to_lnglat e minx maxy,
           mercator_to_lnglat e maxx maxy,
           py_bind (truediv (fadd minx maxx) (Fin 2)) (\<lambda>mx. mercator_to_lnglat e mx miny),
           py_bind (truediv (fadd minx maxx) (Fin 2)) (\<lambda>mx. mercator_to_lnglat e mx maxy),
           py_bind (truediv (fadd miny maxy) (Fin 2)) (\<lambda>my. mercator_to_lnglat e minx my),
           py_bind (truediv (fadd miny maxy) (Fin 2)) (\<lambda>my. mercator_to_lnglat e maxx my)])))"

text \<open>
  The inner loop of lines 170 to 173 (and 194 to 197): the code of the first item of
  \<open>province_geometries\<close> whose geometry contains the point; the \<^verbatim>\<open>break\<close> ends the
  loop there.
\<close>

fun first_containing :: "(string \<times> geometry) list \<Rightarrow> point \<Rightarrow> string option" where
  "first_containing [] p = None"
| "first_containing ((code, g) # items) p =
     (if g p then Some code else first_containing items p)"

text \<open>The loop of lines 168 to 173 over the sample points, \<open>matched\<close> being the set so far.\<close>

fun match_points :: "(string \<times> geometry) list \<Rightarrow> point list \<Rightarrow> string list \<Rightarrow> string list" where
  "match_points items [] matched = matched"
| "match_points items (p # ps) matched =
     match_points items ps
       (case first_containing items p of None \<Rightarrow> matched | Some code \<Rightarrow> set_add matched code)"

text \<open>
  The perimeter points of lines 179 to 189. \<open>interpolate lo hi k\<close> is
  \<^verbatim>\<open>lo + (hi - lo) * k / 256\<close>; \<open>sample_steps\<close> is \<^verbatim>\<open>range(0, 256, 10)\<close>.
\<close>

definition interpolate :: "pyfloat \<Rightarrow> pyfloat \<Rightarrow> nat \<Rightarrow> py_error + pyfloat" where
  "interpolate lo hi k =
     py_bind (truediv (fmul (fsub hi lo) (Fin (of_nat k))) (Fin 256)) (\<lambda>t. Inr (fadd lo t))"

definition sample_steps :: "nat list" where
  "sample_steps = map (\<lambda>k. 10 * k) [0..<26]"

definition edge_points :: "env \<Rightarrow> bbox \<Rightarrow> py_error + point list" where
  "edge_points e bb =
     (case bb of (minx, miny, maxx, maxy) \<Rightarrow>
        py_sequence (concat (map (\<lambda>i.
          map (\<lambda>j.
            py_bind (interpolate minx maxx i) (\<lambda>mx.
            py_bind (interpolate miny maxy j) (\<lambda>my.
            mercator_to_lnglat e mx my))) [0, 255]
          @ map (\<lambda>j.
            py_bind (interpolate miny maxy j) (\<lambda>my.
            mercator_to_lnglat e (if i = 0 then minx else maxx) my)) sample_steps)
          sample_steps)))"

text \<open>
  The loop of lines 192 to 200 over the perimeter points: it ends at the first point
  after which the set is not empty.
\<close>

fun match_edge_points ::
  "(string \<times> geometry) list \<Rightarrow> point list \<Rightarrow> string list \<Rightarrow> string list" where
  "match_edge_points items [] matched = matched"
| "match_edge_points items (p # ps) matched =
     (let matched' =
        (case first_containing items p of None \<Rightarrow> matched | Some code \<Rightarrow> set_add matched code)
      in if matched' \<noteq> [] then matched' else match_edge_points items ps matched')"

text \<open>The longitude/latitude buckets of lines 205 to 213, on the center point.\<close>

definition fallback_group :: "point \<Rightarrow> py_error + string list" where
  "fallback_group p =
     (case p of (lng, lat) \<Rightarrow>
        if fgt lat (Fin 40) \<and> flt lng (Fin 125) then province_group ''northeast''
        else if flt lng (Fin 105) then
          (if fgt lat (Fin 38) then province_group ''northwest''
           else province_group ''southwest'')
        else if flt lng (Fin 115) then province_group ''central''
        else if flt lng (Fin 122) then province_group ''east''
        else province_group ''north'')"

text \<open>
  Lines 216 to 221: the set of the groups of the matched codes, \<open>group_of\<close> being
  \<^verbatim>\<open>CODE_TO_GROUP.get(code, 'unknown')\<close>, then the codes of those groups, flattened.
\<close>

definition group_of :: "string \<Rightarrow> string" where
  "group_of code = (case CODE_TO_GROUP code of None \<Rightarrow> ''unknown'' | Some g \<Rightarrow> g)"

definition group_expansion :: "env \<Rightarrow> string list \<Rightarrow> string list" where
  "group_expansion e matched_provinces =
     (let groups =
        fold (\<lambda>code s. set_add s (group_of code)) (set_order e matched_provinces) []
      in concat (map province_group_get (set_order e groups)))"

text \<open>What the program prints, in order.\<close>

datatype log_line =
    No_province_matched nat nat nat
  | Still_no_province_matched nat nat nat
  | Error_generating_tile py_error

text \<open>
  The set \<^verbatim>\<open>matched_provinces\<close> after the loop over the nine sample points
  (lines 145 to 173), for a tile that reaches it.
\<close>

definition coarse_matched :: "env \<Rightarrow> nat \<Rightarrow> nat \<Rightarrow> nat \<Rightarrow> py_error + string list" where
  "coarse_matched e z x y =
     py_bind (calculate_bbox z x y) (\<lambda>bb.
     py_bind (coarse_points e bb) (\<lambda>points.
     Inr (match_points (province_geometries e) points [])))"

text \<open>
  \<^verbatim>\<open>get_province_group(z, x, y)\<close>, lines 139 to 221: what it prints, and the list it
  returns or the exception it raises.
\<close>

definition get_province_group ::
  "env \<Rightarrow> nat \<Rightarrow> nat \<Rightarrow> nat \<Rightarrow> log_line list \<times> (py_error + string list)" where
  "get_province_group e z x y =
     (if z < 6 then ([], Inr all_province_codes)
      else case calculate_bbox z x y of
        Inl err \<Rightarrow> ([], Inl err)
      | Inr bb \<Rightarrow>
         (case coarse_points e bb of
            Inl err \<Rightarrow> ([], Inl err)
          | Inr points \<Rightarrow>
             (let matched_provinces = match_points (province_geometries e) points [] in
              if matched_provinces = [] then
                (case edge_points e bb of
                   Inl err \<Rightarrow> ([No_province_matched z x y], Inl err)
                 | Inr edges \<Rightarrow>
                    (let matched_provinces =
                       match_edge_points (province_geometries e) edges matched_provinces in
                     if matched_provinces = [] then
                       ([No_province_matched z x y, Still_no_province_matched z x y],
                        fallback_group (points ! 0))
                     else
                       ([No_province_matched z x y],
                        Inr (group_expansion e matched_provinces))))
              else ([], Inr (group_expansion e matched_provinces)))))"

section \<open>The request builder and the endpoint\<close>

text \<open>Python's \<^verbatim>\<open>sep.join(xs)\<close>.\<close>

fun py_join :: "string \<Rightarrow> string list \<Rightarrow> string" where
  "py_join sep [] = []"
| "py_join sep [x] = x"
| "py_join sep (x # y # ys) = x @ sep @ py_join sep (y # ys)"

text \<open>Lines 226 and 227.\<close>

definition layer_name :: "string \<Rightarrow> string" where
  "layer_name code = ''QGSFKYFW:sf'' @ code @ ''0000''"

definition layers_of :: "string list \<Rightarrow> string" where
  "layers_of provinces = py_join '','' (map layer_name provinces)"

definition styles_of :: "string list \<Rightarrow> string" where
  "styles_of provinces = py_join '','' (replicate (length provinces) ''QGSFKYFW:shifeikongyu'')"

text \<open>
  How a comma-separated request parameter is read back, as Python's
  \<^verbatim>\<open>s.split(',')\<close>: the entries between the commas.
\<close>

fun split_commas :: "string \<Rightarrow> string list" where
  "split_commas [] = [[]]"
| "split_commas (c # cs) =
     (if c = CHR '','' then [] # split_commas cs
      else (case split_commas cs of [] \<Rightarrow> [[c]] | w # ws \<Rightarrow> (c # w) # ws))"

text \<open>The dict \<^verbatim>\<open>params\<close>, lines 229 to 241.\<close>

definition build_params :: "string list \<Rightarrow> bbox \<Rightarrow> wms_params" where
  "build_params provinces bb =
     \<lparr>service = ''WMS'', version = ''1.1.0'', request = ''GetMap'',
      layers = layers_of provinces, styles = styles_of provinces, bbox = bb,
      width = 256, height = 256, srs = ''EPSG:3857'', format = ''image/png8'',
      transparent = ''true''\<rparr>"

text \<open>
  \<^verbatim>\<open>wms_to_xyz(z, x, y, wms_url)\<close>, lines 223 to 250. The dict \<^verbatim>\<open>params\<close> is built
  after the resolver has returned, \<^verbatim>\<open>calculate_bbox\<close> being called for its
  \<^verbatim>\<open>"bbox"\<close> entry.
\<close>

definition wms_to_xyz ::
  "env \<Rightarrow> nat \<Rightarrow> nat \<Rightarrow> nat \<Rightarrow> log_line list \<times> (py_error + byte list)" where
  "wms_to_xyz e z x y =
     (case get_province_group e z x y of (printed, r) \<Rightarrow>
        (printed,
         py_bind r (\<lambda>provinces.
         py_bind (calculate_bbox z x y) (\<lambda>bb.
         requests_get e (build_params provinces bb)))))"

text \<open>The literal of line 261, 67 bytes.\<close>

definition transparent_png :: "byte list" where
  "transparent_png =
     [0x89, 0x50, 0x4E, 0x47, 0x0D, 0x0A, 0x1A, 0x0A, 0x00, 0x00, 0x00, 0x0D, 0x49, 0x48,
      0x44, 0x52, 0x00, 0x00, 0x00, 0x01, 0x00, 0x00, 0x00, 0x01, 0x08, 0x06, 0x00, 0x00,
      0x00, 0x1F, 0x15, 0xC4, 0x89, 0x00, 0x00, 0x00, 0x0A, 0x49, 0x44, 0x41, 0x54, 0x78,
      0x9C, 0x63, 0x00, 0x01, 0x00, 0x00, 0x05, 0x00, 0x01, 0x0D, 0x0A, 0x2D, 0xB4, 0x00,
      0x00, 0x00, 0x00, 0x49, 0x45, 0x4E, 0x44, 0xAE, 0x42, 0x60, 0x82]"

text \<open>
  \<^verbatim>\<open>get_tile(z, x, y)\<close>, lines 252 to 263: what is printed, and the triple of body,
  status and headers handed to Flask. \<^verbatim>\<open>except Exception\<close> catches every exception
  of \<open>py_error\<close>.
\<close>

definition get_tile ::
  "env \<Rightarrow> nat \<Rightarrow> nat \<Rightarrow> nat \<Rightarrow> log_line list \<times> (byte list \<times> nat \<times> (string \<times> string) list)" where
  "get_tile e z x y =
     (case wms_to_xyz e z x y of
        (printed, Inr tile_data) \<Rightarrow> (printed, (tile_data, 200, [(''Content-Type'', ''image/png'')]))
      | (printed, Inl err) \<Rightarrow>
          (printed @ [Error_generating_tile err],
           (transparent_png, 200, [(''Content-Type'', ''image/png'')])))"

section \<open>Sample environments\<close>

text \<open>
  One C library the program can run on: \<^verbatim>\<open>exp\<close> and \<^verbatim>\<open>atan\<close> correctly rounded,
  \<^verbatim>\<open>math.exp\<close> raising OverflowError when the result is too large for a float. With
  it, an environment for a given content of \<open>province_geometries\<close>: sets are iterated
  in insertion order and the upstream answers every request with the same two bytes.
\<close>

definition libm_exp :: "pyfloat \<Rightarrow> py_error + pyfloat" where
  "libm_exp v =
     (case v of
        Fin a \<Rightarrow> (case rnd (exp a) of Fin r \<Rightarrow> Inr (Fin r) | _ \<Rightarrow> Inl OverflowError)
      | PInf \<Rightarrow> Inr PInf
      | NInf \<Rightarrow> Inr (Fin 0)
      | NaN \<Rightarrow> Inr NaN)"

definition libm_atan :: "pyfloat \<Rightarrow> pyfloat" where
  "libm_atan v =
     (case v of
        Fin a \<Rightarrow> rnd (arctan a)
      | PInf \<Rightarrow> rnd (pi / 2)
      | NInf \<Rightarrow> rnd (- (pi / 2))
      | NaN \<Rightarrow> NaN)"

definition sample_env :: "(string \<times> geometry) list \<Rightarrow> env" where
  "sample_env items =
     \<lparr>province_geometries = items, math_exp = libm_exp, math_atan = libm_atan,
      set_order = (\<lambda>xs. xs), requests_get = (\<lambda>params. Inr [0x89, 0x50])\<rparr>"

text \<open>The same environment with an upstream that cannot be reached.\<close>

definition offline_env :: "(string \<times> geometry) list \<Rightarrow> env" where
  "offline_env items = (sample_env items)\<lparr>requests_get := (\<lambda>params. Inl RequestException)\<rparr>"

text \<open>
  A geometry for sample runs: the strip of longitudes strictly between 112.6 and 112.9,
  at every latitude.
\<close>

definition strip_112_7 :: geometry where
  "strip_112_7 = (\<lambda>(lng, lat). flt (Fin (1126 / 10)) lng \<and> flt lng (Fin (1129 / 10)))"

section \<open>Evaluation of the float operations\<close>

lemma bitlen_one [simp]: "bitlen 1 = 1"
  by (simp add: bitlen_alt_def)

lemma bitlen_Bit0 [simp]: "bitlen (numeral (Num.Bit0 n)) = bitlen (numeral n) + 1"
proof -
  have "bitlen (numeral (Num.Bit0 n)) = bitlen (numeral (Num.Bit0 n) div 2) + 1"
    by (subst compute_bitlen) simp
  then show ?thesis by simp
qed

lemma bitlen_Bit1 [simp]: "bitlen (numeral (Num.Bit1 n)) = bitlen (numeral n) + 1"
proof -
  have "bitlen (numeral (Num.Bit1 n)) = bitlen (numeral (Num.Bit1 n) div 2) + 1"
    by (subst compute_bitlen) simp
  then show ?thesis by simp
qed

lemma py_bind_simps [simp]:
  "py_bind (Inl err) f = Inl err"
  "py_bind (Inr v) f = f v"
  by (simp_all add: py_bind_def)

subsection \<open>Rounding: the exponent, the error bound, exact values\<close>

lemma ilog2_bounds:
  assumes "0 < q"
  shows "2 powi (ilog2 q) \<le> q" and "q < 2 powi (ilog2 q + 1)"
proof -
  have "2 powi (ilog2 q) \<le> q \<and> q < 2 powi (ilog2 q + 1)"
  proof (cases "1 \<le> q")
    case True
    define n where "n = \<lfloor>q\<rfloor>"
    have n: "0 < n" "of_int n \<le> q" "q < of_int n + 1"
      using True by (auto simp: n_def)
    have b: "2 ^ nat (bitlen n - 1) \<le> n" "n < 2 ^ nat (bitlen n)"
      using bitlen_bounds [OF n(1)] by auto
    have b1: "1 \<le> bitlen n"
      using n(1) by (simp add: bitlen_alt_def)
    have e: "ilog2 q = bitlen n - 1"
      using True by (simp add: ilog2_def n_def)
    have "(2::real) powi (bitlen n - 1) = of_int (2 ^ nat (bitlen n - 1))"
      using b1 by (simp add: power_int_def)
    also have "\<dots> \<le> of_int n"
      using b(1) by (simp only: of_int_le_iff)
    finally have lo: "2 powi (ilog2 q) \<le> q"
      using n(2) e by simp
    have "n + 1 \<le> 2 ^ nat (bitlen n)"
      using b(2) by simp
    then have "real_of_int (n + 1) \<le> of_int (2 ^ nat (bitlen n))"
      by (simp only: of_int_le_iff)
    also have "\<dots> = 2 powi (bitlen n)"
      using b1 by (simp add: power_int_def)
    finally have "q < 2 powi (ilog2 q + 1)"
      using n(3) e by simp
    with lo show ?thesis by simp
  next
    case False
    define n where "n = \<lceil>1 / q\<rceil> - 1"
    have q1: "1 < 1 / q"
      using False assms by simp
    have n: "0 < n" "of_int n < 1 / q" "1 / q \<le> of_int n + 1"
      using q1 by (auto simp: n_def) linarith
    have b: "2 ^ nat (bitlen n - 1) \<le> n" "n < 2 ^ nat (bitlen n)"
      using bitlen_bounds [OF n(1)] by auto
    have b1: "1 \<le> bitlen n"
      using n(1) by (simp add: bitlen_alt_def)
    have e: "ilog2 q = - bitlen n"
      using False by (simp add: ilog2_def n_def)
    have "n + 1 \<le> 2 ^ nat (bitlen n)"
      using b(2) by simp
    then have "real_of_int (n + 1) \<le> of_int (2 ^ nat (bitlen n))"
      by (simp only: of_int_le_iff)
    also have "\<dots> = 2 powi (bitlen n)"
      using b1 by (simp add: power_int_def)
    finally have "1 / q \<le> 2 powi (bitlen n)"
      using n(3) by simp
    then have lo: "2 powi (ilog2 q) \<le> q"
      using assms e by (simp add: power_int_minus field_simps)
    have "(2::real) powi (bitlen n - 1) = of_int (2 ^ nat (bitlen n - 1))"
      using b1 by (simp add: power_int_def)
    also have "\<dots> \<le> of_int n"
      using b(1) by (simp only: of_int_le_iff)
    finally have "2 powi (bitlen n - 1) < 1 / q"
      using n(2) by simp
    then have "q * 2 powi (bitlen n - 1) < 1"
      using assms by (simp add: field_simps)
    then have "q < 1 / 2 powi (bitlen n - 1)"
      by (simp add: pos_less_divide_eq)
    moreover have "(2::real) powi (ilog2 q + 1) = 1 / 2 powi (bitlen n - 1)"
      using e by (simp add: power_int_minus_divide [symmetric])
    ultimately have "q < 2 powi (ilog2 q + 1)"
      by simp
    with lo show ?thesis by simp
  qed
  then show "2 powi (ilog2 q) \<le> q" and "q < 2 powi (ilog2 q + 1)"
    by simp_all
qed

lemma round_even_error: "\<bar>of_int (round_even t) - t\<bar> \<le> 1 / 2"
  unfolding round_even_def Let_def by (auto; linarith)

lemma round_even_of_int [simp]: "round_even (of_int n) = n"
  by (simp add: round_even_def)

lemma ulp_pos [simp]: "0 < ulp q"
  by (simp add: ulp_def)

lemma ulp_nonzero [simp]: "ulp q \<noteq> 0"
  by (simp add: ulp_def)


lemma ulp_le:
  assumes "q \<noteq> 0"
  shows "ulp q \<le> \<bar>q\<bar> / 2 ^ 52 + 1 / 2 ^ 1074"
proof (cases "- 1022 \<le> ilog2 \<bar>q\<bar>")
  case True
  have "(2::real) powi (ilog2 \<bar>q\<bar> + (- 52)) = 2 powi (ilog2 \<bar>q\<bar>) * 2 powi (- 52)"
    by (rule power_int_add) simp
  then have "ulp q = 2 powi (ilog2 \<bar>q\<bar>) * 2 powi (- 52)"
    using True by (simp add: ulp_def max_def)
  also have "\<dots> \<le> \<bar>q\<bar> * 2 powi (- 52)"
    using ilog2_bounds(1) [of "\<bar>q\<bar>"] assms by (intro mult_right_mono) simp_all
  also have "\<dots> = \<bar>q\<bar> / 2 ^ 52"
    by (simp add: power_int_minus_divide)
  finally show ?thesis
    by (simp add: add_increasing2)
next
  case False
  then have "ulp q = 2 powi (- 1074)"
    by (simp add: ulp_def max_def)
  also have "\<dots> = 1 / 2 ^ 1074"
    by (simp add: power_int_minus_divide)
  finally show ?thesis
    by simp
qed

lemma rnd_error:
  assumes "\<bar>q\<bar> \<le> 2 ^ 1023"
  obtains r where "rnd q = Fin r" and "\<bar>r - q\<bar> \<le> ulp q / 2"
proof (cases "q = 0")
  case True
  then have "rnd q = Fin 0" "\<bar>0 - q\<bar> \<le> ulp q / 2"
    by (simp_all add: rnd_def less_imp_le)
  then show ?thesis by (rule that)
next
  case False
  define r where "r = of_int (round_even (q / ulp q)) * ulp q"
  have "r - q = (of_int (round_even (q / ulp q)) - q / ulp q) * ulp q"
    by (simp add: r_def left_diff_distrib)
  then have "\<bar>r - q\<bar> = \<bar>of_int (round_even (q / ulp q)) - q / ulp q\<bar> * ulp q"
    by (simp add: abs_mult abs_of_pos)
  also have "\<dots> \<le> 1 / 2 * ulp q"
    by (intro mult_right_mono round_even_error) (simp add: less_imp_le)
  finally have err: "\<bar>r - q\<bar> \<le> ulp q / 2"
    by simp
  define M :: real where "M = 2 ^ 1023"
  have M: "1 \<le> M" "2 * M = 2 ^ 1024" "\<bar>q\<bar> \<le> M"
    using assms by (simp_all add: M_def)
  have "ulp q \<le> \<bar>q\<bar> / 2 ^ 52 + 1 / 2 ^ 1074"
    using False by (rule ulp_le)
  moreover have "\<bar>q\<bar> / 2 ^ 52 \<le> \<bar>q\<bar> / 2 ^ 1"
    by (intro divide_left_mono power_increasing) simp_all
  moreover have "(1::real) / 2 ^ 1074 \<le> 1 / 2 ^ 1"
    by (intro divide_left_mono power_increasing) simp_all
  ultimately have "ulp q \<le> M"
    using M(1,3) by simp
  with err M(3) have "\<bar>r\<bar> < 2 * M"
    using M(1) by linarith
  then have "\<bar>r\<bar> < 2 ^ 1024"
    by (simp only: M(2))
  then have "rnd q = Fin r"
    using False by (simp add: rnd_def r_def [symmetric] Let_def abs_less_iff not_le)
  then show ?thesis
    using err by (rule that)
qed

lemma rnd_exact:
  assumes m: "\<bar>m\<bar> < 2 ^ 53" and k: "- 1074 \<le> k"
    and fin: "\<bar>real_of_int m * 2 powi k\<bar> < 2 ^ 1024"
  shows "rnd (of_int m * 2 powi k) = Fin (of_int m * 2 powi k)"
proof (cases "m = 0")
  case True
  then show ?thesis by (simp add: rnd_def)
next
  case False
  define q :: real where "q = of_int m * 2 powi k"
  define e where "e = max (ilog2 \<bar>q\<bar>) (- 1022)"
  have q0: "q \<noteq> 0" "0 < \<bar>q\<bar>"
    using False by (simp_all add: q_def)
  have "2 powi (ilog2 \<bar>q\<bar>) \<le> \<bar>q\<bar>"
    using q0 by (intro ilog2_bounds) simp
  also have "\<bar>q\<bar> = of_int \<bar>m\<bar> * 2 powi k"
    by (simp add: q_def abs_mult)
  also have "\<dots> < of_int (2 ^ 53) * 2 powi k"
    using m by (intro mult_strict_right_mono) (simp_all only: of_int_less_iff, simp)
  also have "\<dots> = 2 powi (53 + k)"
    by (simp add: power_int_add)
  finally have "(2::real) powi (ilog2 \<bar>q\<bar>) < 2 powi (53 + k)" .
  then have "ilog2 \<bar>q\<bar> < 53 + k"
    using power_int_increasing [of "53 + k" "ilog2 \<bar>q\<bar>" "2::real"] by (cases "ilog2 \<bar>q\<bar> < 53 + k") simp_all
  then have j: "0 \<le> k + 52 - e"
    using k by (simp add: e_def)
  have u: "ulp q = 2 powi (e - 52)"
    by (simp add: ulp_def e_def)
  have "inverse (ulp q) = 2 powi (- (e - 52))"
    by (simp only: u power_int_minus)
  then have "q / ulp q = of_int m * (2 powi k * 2 powi (52 - e))"
    by (simp add: q_def divide_inverse)
  also have "2 powi k * 2 powi (52 - e) = (2::real) powi (k + 52 - e)"
    by (simp add: power_int_add [symmetric] algebra_simps)
  also have "\<dots> = of_int (2 ^ nat (k + 52 - e))"
    using j by (simp add: power_int_def)
  finally have "q / ulp q = of_int (m * 2 ^ nat (k + 52 - e))"
    by simp
  then have "of_int (round_even (q / ulp q)) * ulp q = q / ulp q * ulp q"
    by (simp only: round_even_of_int)
  also have "\<dots> = q"
    by simp
  finally have "of_int (round_even (q / ulp q)) * ulp q = q" .
  then have "rnd q = Fin q"
    using q0 fin by (simp add: rnd_def Let_def q_def [symmetric] abs_less_iff not_le)
  then show ?thesis
    by (simp add: q_def)
qed

subsection \<open>The bounding box\<close>

lemmas float_eval = rnd_def ulp_def ilog2_def power_int_minus_divide round_even_def Let_def
  float_of_int_def math_pi_def earth_radius_def fsub_def

lemma origin_shift_eval:
  "truediv (fmul (fmul (Fin 2) math_pi) earth_radius) (Fin 2) = Inr (Fin (5378777689100435 / 268435456))"
  by (simp add: float_eval)

lemma twice_origin_shift_eval:
  "fmul (Fin 2) (Fin (5378777689100435 / 268435456)) = Fin (5378777689100435 / 134217728)"
  by (simp add: float_eval)

lemma rnd_rel_error:
  assumes "\<bar>q\<bar> \<le> 2 ^ 1023"
  obtains r where "rnd q = Fin r" and "\<bar>r - q\<bar> \<le> \<bar>q\<bar> / 2 ^ 53 + 1 / 2 ^ 1075"
proof (cases "q = 0")
  case True
  then have "rnd q = Fin 0" "\<bar>0 - q\<bar> \<le> \<bar>q\<bar> / 2 ^ 53 + 1 / 2 ^ 1075"
    by (simp_all add: rnd_def)
  then show ?thesis by (rule that)
next
  case False
  obtain r where r: "rnd q = Fin r" "\<bar>r - q\<bar> \<le> ulp q / 2"
    using assms by (rule rnd_error)
  have "ulp q \<le> \<bar>q\<bar> / 2 ^ 52 + 1 / 2 ^ 1074"
    using False by (rule ulp_le)
  then have "ulp q / 2 \<le> \<bar>q\<bar> / 2 ^ 53 + 1 / 2 ^ 1075"
    by simp
  with r show ?thesis
    by (intro that [of r]) simp_all
qed

lemma powi_int_nat: "(2::real) powi (int n) = 2 ^ n"
  by simp

lemma powi_neg_int_nat: "(2::real) powi (- int n) = 1 / 2 ^ n"
  by (simp add: power_int_minus_divide)

lemma float_of_int_tiles:
  assumes "z \<le> 1015"
  shows "float_of_int (256 * 2 ^ z) = Inr (Fin (2 ^ (z + 8)))"
proof -
  have lt: "(2::real) ^ (z + 8) < 2 ^ 1024"
    using assms by (intro power_strict_increasing) simp_all
  have "rnd (of_int 1 * 2 powi (int (z + 8))) = Fin (of_int 1 * 2 powi (int (z + 8)))"
    using lt by (intro rnd_exact) (simp_all only: powi_int_nat, simp_all)
  moreover have "real_of_int (256 * 2 ^ z) = 2 ^ (z + 8)"
    by (simp add: power_add)
  ultimately show ?thesis
    by (simp only: float_of_int_def powi_int_nat) simp
qed

lemma res_exact:
  assumes "z \<le> 1015"
  shows "truediv (Fin (5378777689100435 / 134217728)) (Fin (2 ^ (z + 8)))
           = Inr (Fin (5378777689100435 / 2 ^ (z + 35)))"
proof -
  have eq: "(5378777689100435 / 134217728) / 2 ^ (z + 8)
              = real_of_int 5378777689100435 * 2 powi (- int (z + 35))"
    by (simp only: powi_neg_int_nat) (simp add: power_add)
  have eq': "real_of_int 5378777689100435 * 2 powi (- int (z + 35)) = 5378777689100435 / 2 ^ (z + 35)"
    by (simp only: powi_neg_int_nat; simp)
  have "(5378777689100435::real) / 2 ^ (z + 35) \<le> 5378777689100435 / 2 ^ 0"
    by (intro divide_left_mono power_increasing) simp_all
  then have "\<bar>real_of_int 5378777689100435 * 2 powi (- int (z + 35))\<bar> < 2 ^ 1024"
    by (simp only: eq') simp
  then have "rnd (real_of_int 5378777689100435 * 2 powi (- int (z + 35)))
          = Fin (real_of_int 5378777689100435 * 2 powi (- int (z + 35)))"
    using assms by (intro rnd_exact) simp_all
  then have "rnd ((5378777689100435 / 134217728) / 2 ^ (z + 8))
          = Fin (5378777689100435 / 2 ^ (z + 35))"
    by (simp only: eq eq')
  moreover have "truediv (Fin (5378777689100435 / 134217728)) (Fin (2 ^ (z + 8)))
          = Inr (rnd ((5378777689100435 / 134217728) / 2 ^ (z + 8)))"
    by simp
  ultimately show ?thesis
    by (simp only:)
qed

lemma float_of_int_exact:
  assumes "0 \<le> n" "n < 2 ^ 53"
  shows "float_of_int (n * 256) = Inr (Fin (of_int n * 256))"
proof -
  have "real_of_int n < of_int (2 ^ 53)"
    using assms(2) by (simp only: of_int_less_iff)
  then have "real_of_int n * 256 < 2 ^ 53 * 256"
    by simp
  also have "\<dots> < 2 ^ 1024"
    by simp
  finally have "\<bar>real_of_int n * 2 powi 8\<bar> < 2 ^ 1024"
    using assms(1) by simp
  then have "rnd (of_int n * 2 powi 8) = Fin (of_int n * 2 powi 8)"
    using assms by (intro rnd_exact) simp_all
  then show ?thesis
    by (simp add: float_of_int_def)
qed

text \<open>The product \<open>n * tile_size * res\<close> and the subtraction of \<open>origin_shift\<close>.\<close>

lemma axis_product:
  assumes "z \<le> 51" "n \<le> 2 ^ z"
  obtains p where
    "float_of_int (int n * 256) = Inr (Fin (of_nat n * 256))"
    "fmul (Fin (of_nat n * 256)) (Fin (5378777689100435 / 2 ^ (z + 35))) = Fin p"
    "\<bar>p - of_nat n * (5378777689100435 / 2 ^ (z + 27))\<bar>
       \<le> (5378777689100435 / 2 ^ 27) / 2 ^ 53 + 1 / 2 ^ 1075"
    "\<bar>p\<bar> \<le> 5378777689100435 / 2 ^ 27 + ((5378777689100435 / 2 ^ 27) / 2 ^ 53 + 1 / 2 ^ 1075)"
proof -
  define d :: real where "d = 5378777689100435 / 2 ^ (z + 27)"
  define q :: real where "q = of_nat n * d"
  have "(2::nat) ^ z \<le> 2 ^ 51"
    using assms(1) by (intro power_increasing) simp_all
  with assms(2) have n: "n \<le> 2 ^ 51"
    by simp
  then have "int n < 2 ^ 53"
    by simp
  then have conv: "float_of_int (int n * 256) = Inr (Fin (of_nat n * 256))"
    using float_of_int_exact [of "int n"] by simp
  have prod: "of_nat n * 256 * (5378777689100435 / 2 ^ (z + 35)) = q"
    by (simp add: q_def d_def power_add)
  have "real n \<le> 2 ^ z"
    using assms(2) by (metis of_nat_le_iff of_nat_numeral of_nat_power)
  then have "q \<le> 2 ^ z * d"
    unfolding q_def by (intro mult_right_mono) (simp_all add: d_def)
  also have "\<dots> = 5378777689100435 / 2 ^ 27"
    by (simp add: d_def power_add)
  finally have q: "0 \<le> q" "q \<le> 5378777689100435 / 2 ^ 27"
    by (simp_all add: q_def d_def)
  then have "\<bar>q\<bar> \<le> 2 ^ 1023"
    by simp
  then obtain p where p: "rnd q = Fin p" "\<bar>p - q\<bar> \<le> \<bar>q\<bar> / 2 ^ 53 + 1 / 2 ^ 1075"
    by (rule rnd_rel_error)
  have "\<bar>q\<bar> / 2 ^ 53 \<le> (5378777689100435 / 2 ^ 27) / 2 ^ 53"
    using q by (intro divide_right_mono) simp_all
  with p(2) have err: "\<bar>p - q\<bar> \<le> (5378777689100435 / 2 ^ 27) / 2 ^ 53 + 1 / 2 ^ 1075"
    by linarith
  with q have "\<bar>p\<bar> \<le> 5378777689100435 / 2 ^ 27 + ((5378777689100435 / 2 ^ 27) / 2 ^ 53 + 1 / 2 ^ 1075)"
    by linarith
  with conv p(1) err show ?thesis
    by (intro that [of p]) (simp_all only: fmul.simps prod, simp_all add: q_def d_def)
qed


lemma rnd_near:
  assumes "\<bar>q - t\<bar> \<le> a" "\<bar>t\<bar> \<le> b" "b + a \<le> 2 ^ 1023"
  obtains r where "rnd q = Fin r" and "\<bar>r - t\<bar> \<le> a + ((b + a) / 2 ^ 53 + 1 / 2 ^ 1075)"
proof -
  have q: "\<bar>q\<bar> \<le> b + a"
    using assms(1,2) by linarith
  with assms(3) have "\<bar>q\<bar> \<le> 2 ^ 1023"
    by linarith
  then obtain r where r: "rnd q = Fin r" "\<bar>r - q\<bar> \<le> \<bar>q\<bar> / 2 ^ 53 + 1 / 2 ^ 1075"
    by (rule rnd_rel_error)
  have "\<bar>q\<bar> / 2 ^ 53 \<le> (b + a) / 2 ^ 53"
    using q by (intro divide_right_mono) simp_all
  with r(2) assms(1) have "\<bar>r - t\<bar> \<le> a + ((b + a) / 2 ^ 53 + 1 / 2 ^ 1075)"
    by linarith
  with r(1) show ?thesis
    by (rule that)
qed

lemma axis_value:
  assumes "z \<le> 51" "n \<le> 2 ^ z"
  obtains fn lo hi where
    "float_of_int (int n * 256) = Inr fn"
    "fsub (fmul fn (Fin (5378777689100435 / 2 ^ (z + 35)))) (Fin (5378777689100435 / 268435456)) = Fin lo"
    "\<bar>lo - (of_nat n * tile_span z - origin_shift)\<bar> \<le> bbox_error"
    "fsub (Fin (5378777689100435 / 268435456)) (fmul fn (Fin (5378777689100435 / 2 ^ (z + 35)))) = Fin hi"
    "\<bar>hi - (origin_shift - of_nat n * tile_span z)\<bar> \<le> bbox_error"
proof -
  define a :: real where "a = (5378777689100435 / 2 ^ 27) / 2 ^ 53 + 1 / 2 ^ 1075"
  define t :: real where "t = of_nat n * tile_span z"
  obtain p where p:
    "float_of_int (int n * 256) = Inr (Fin (of_nat n * 256))"
    "fmul (Fin (of_nat n * 256)) (Fin (5378777689100435 / 2 ^ (z + 35))) = Fin p"
    "\<bar>p - of_nat n * (5378777689100435 / 2 ^ (z + 27))\<bar> \<le> a"
    unfolding a_def using assms by (rule axis_product)
  have span: "tile_span z = 5378777689100435 / 2 ^ (z + 27)"
    by (simp add: tile_span_def origin_shift_def power_add)
  have "real n \<le> 2 ^ z"
    using assms(2) by (metis of_nat_le_iff of_nat_numeral of_nat_power)
  then have "t \<le> 2 ^ z * tile_span z"
    unfolding t_def by (intro mult_right_mono) (simp_all add: tile_span_def origin_shift_def)
  also have "\<dots> = 2 * origin_shift"
    by (simp add: tile_span_def)
  finally have t: "0 \<le> t" "t \<le> 2 * origin_shift"
    by (simp_all add: t_def tile_span_def origin_shift_def)
  have os: "(5378777689100435 / 268435456 :: real) = origin_shift"
    by (simp add: origin_shift_def)
  have pt: "\<bar>p - t\<bar> \<le> a"
    using p(3) by (simp add: t_def span)
  have bound: "a + ((origin_shift + a) / 2 ^ 53 + 1 / 2 ^ 1075) \<le> bbox_error"
    by (simp add: a_def origin_shift_def bbox_error_def)
  have fits: "origin_shift + a \<le> 2 ^ 1023"
    by (simp add: a_def origin_shift_def)
  have "\<bar>(p + - origin_shift) - (t - origin_shift)\<bar> \<le> a" "\<bar>t - origin_shift\<bar> \<le> origin_shift"
    using pt t by (simp_all add: abs_le_iff)
  then obtain lo where lo: "rnd (p + - origin_shift) = Fin lo"
      "\<bar>lo - (t - origin_shift)\<bar> \<le> a + ((origin_shift + a) / 2 ^ 53 + 1 / 2 ^ 1075)"
    using fits by (rule rnd_near)
  have "\<bar>(origin_shift + - p) - (origin_shift - t)\<bar> \<le> a" "\<bar>origin_shift - t\<bar> \<le> origin_shift"
    using pt t by (simp_all add: abs_le_iff)
  then obtain hi where hi: "rnd (origin_shift + - p) = Fin hi"
      "\<bar>hi - (origin_shift - t)\<bar> \<le> a + ((origin_shift + a) / 2 ^ 53 + 1 / 2 ^ 1075)"
    using fits by (rule rnd_near)
  show ?thesis
  proof (rule that [of "Fin (of_nat n * 256)" lo hi])
    show "float_of_int (int n * 256) = Inr (Fin (of_nat n * 256))"
      by (rule p(1))
    show "fsub (fmul (Fin (of_nat n * 256)) (Fin (5378777689100435 / 2 ^ (z + 35))))
            (Fin (5378777689100435 / 268435456)) = Fin lo"
      by (simp only: p(2) os fsub_def fneg.simps fadd.simps lo(1))
    show "fsub (Fin (5378777689100435 / 268435456))
            (fmul (Fin (of_nat n * 256)) (Fin (5378777689100435 / 2 ^ (z + 35)))) = Fin hi"
      by (simp only: p(2) os fsub_def fneg.simps fadd.simps hi(1))
    show "\<bar>lo - (of_nat n * tile_span z - origin_shift)\<bar> \<le> bbox_error"
      using lo(2) bound by (simp add: t_def)
    show "\<bar>hi - (origin_shift - of_nat n * tile_span z)\<bar> \<le> bbox_error"
      using hi(2) bound by (simp add: t_def)
  qed
qed


lemma calculate_bbox_in_range:
  assumes "z \<le> 51" "x < 2 ^ z" "y < 2 ^ z"
  obtains minx miny maxx maxy where
    "calculate_bbox z x y = Inr (Fin minx, Fin miny, Fin maxx, Fin maxy)"
    "\<bar>minx - (of_nat x * tile_span z - origin_shift)\<bar> \<le> bbox_error"
    "\<bar>maxx - (of_nat (x + 1) * tile_span z - origin_shift)\<bar> \<le> bbox_error"
    "\<bar>miny - (origin_shift - of_nat (y + 1) * tile_span z)\<bar> \<le> bbox_error"
    "\<bar>maxy - (origin_shift - of_nat y * tile_span z)\<bar> \<le> bbox_error"
proof -
  let ?res = "Fin (5378777689100435 / 2 ^ (z + 35))"
  let ?os = "Fin (5378777689100435 / 268435456)"
  have z: "z \<le> 1015"
    using assms(1) by simp
  obtain fx minx hi0 where fx:
    "float_of_int (int x * 256) = Inr fx" "fsub (fmul fx ?res) ?os = Fin minx"
    "\<bar>minx - (of_nat x * tile_span z - origin_shift)\<bar> \<le> bbox_error"
    using assms(1,2) by (auto intro: axis_value [of z x])
  obtain fx1 maxx hi1 where fx1:
    "float_of_int (int (x + 1) * 256) = Inr fx1" "fsub (fmul fx1 ?res) ?os = Fin maxx"
    "\<bar>maxx - (of_nat (x + 1) * tile_span z - origin_shift)\<bar> \<le> bbox_error"
    using assms(1,2) by (auto intro: axis_value [of z "x + 1"])
  obtain fy1 lo1 miny where fy1:
    "float_of_int (int (y + 1) * 256) = Inr fy1" "fsub ?os (fmul fy1 ?res) = Fin miny"
    "\<bar>miny - (origin_shift - of_nat (y + 1) * tile_span z)\<bar> \<le> bbox_error"
    using assms(1,3) by (auto intro: axis_value [of z "y + 1"])
  obtain fy lo0 maxy where fy:
    "float_of_int (int y * 256) = Inr fy" "fsub ?os (fmul fy ?res) = Fin maxy"
    "\<bar>maxy - (origin_shift - of_nat y * tile_span z)\<bar> \<le> bbox_error"
    using assms(1,3) by (auto intro: axis_value [of z y])
  have i: "int x + 1 = int (x + 1)" "int y + 1 = int (y + 1)"
    by simp_all
  have "calculate_bbox z x y = Inr (Fin minx, Fin miny, Fin maxx, Fin maxy)"
    unfolding calculate_bbox_def
    by (simp only: origin_shift_eval twice_origin_shift_eval float_of_int_tiles [OF z]
        res_exact [OF z] i fx fx1 fy1 fy py_bind_simps Let_def)
  then show ?thesis
    using fx(3) fx1(3) fy1(3) fy(3) by (rule that)
qed

lemma two_errors_below_span:
  assumes "z \<le> 51"
  shows "2 * bbox_error < tile_span z"
proof -
  have "(2::real) ^ z \<le> 2 ^ 51"
    using assms by (intro power_increasing) simp_all
  then have "2 * origin_shift / 2 ^ 51 \<le> tile_span z"
    unfolding tile_span_def by (intro divide_left_mono) (simp_all add: origin_shift_def)
  moreover have "2 * bbox_error < 2 * origin_shift / 2 ^ 51"
    by (simp add: bbox_error_def origin_shift_def)
  ultimately show ?thesis
    by linarith
qed

lemma calculate_bbox_shared_edge:
  assumes "calculate_bbox z x y = Inr (minx, miny, maxx, maxy)"
    and "calculate_bbox z (x + 1) y = Inr (minx', miny', maxx', maxy')"
  shows "maxx = minx' \<and> miny = miny' \<and> maxy = maxy'"
  using assms unfolding calculate_bbox_def py_bind_def Let_def
  by (auto split: sum.splits simp: add.commute)

lemma calculate_bbox_ordered:
  assumes "z \<le> 51" "x < 2 ^ z" "y < 2 ^ z"
  shows "\<exists>minx miny maxx maxy.
           calculate_bbox z x y = Inr (Fin minx, Fin miny, Fin maxx, Fin maxy)
           \<and> minx < maxx \<and> miny < maxy"
proof -
  obtain minx miny maxx maxy where b:
    "calculate_bbox z x y = Inr (Fin minx, Fin miny, Fin maxx, Fin maxy)"
    "\<bar>minx - (of_nat x * tile_span z - origin_shift)\<bar> \<le> bbox_error"
    "\<bar>maxx - (of_nat (x + 1) * tile_span z - origin_shift)\<bar> \<le> bbox_error"
    "\<bar>miny - (origin_shift - of_nat (y + 1) * tile_span z)\<bar> \<le> bbox_error"
    "\<bar>maxy - (origin_shift - of_nat y * tile_span z)\<bar> \<le> bbox_error"
    using assms by (rule calculate_bbox_in_range)
  have s: "2 * bbox_error < tile_span z"
    using assms(1) by (rule two_errors_below_span)
  have "of_nat (x + 1) * tile_span z = of_nat x * tile_span z + tile_span z"
       "of_nat (y + 1) * tile_span z = of_nat y * tile_span z + tile_span z"
    by (simp_all add: algebra_simps)
  with b(2-5) s have "minx < maxx" "miny < maxy"
    by linarith+
  with b(1) show ?thesis
    by blast
qed

section \<open>Facts about the group table\<close>

lemma fold_update_lookup:
  "fold (\<lambda>(k, v) m. m(k \<mapsto> v)) xs m k =
     (case map_of (rev xs) k of None \<Rightarrow> m k | Some v \<Rightarrow> Some v)"
  by (induction xs arbitrary: m) (auto split: option.splits)

lemma code_group_pairs_set:
  "(c, g) \<in> set (concat (map (\<lambda>(group, codes). map (\<lambda>code. (code, group)) codes) T))
     \<longleftrightarrow> (\<exists>cs. (g, cs) \<in> set T \<and> c \<in> set cs)"
  by (induction T) auto

lemma code_group_pairs_keys:
  "map fst (concat (map (\<lambda>(group, codes). map (\<lambda>code. (code, group)) codes) T))
     = concat (map snd T)"
  by (induction T) (auto simp: comp_def)

lemma distinct_all_province_codes: "distinct all_province_codes"
  by (simp add: all_province_codes_def PROVINCE_GROUPS_def)

lemma distinct_group_names: "distinct (map fst PROVINCE_GROUPS)"
  by (simp add: PROVINCE_GROUPS_def)

lemma CODE_TO_GROUP_iff:
  "CODE_TO_GROUP c = Some g \<longleftrightarrow> (\<exists>cs. (g, cs) \<in> set PROVINCE_GROUPS \<and> c \<in> set cs)"
proof -
  let ?ps = "concat (map (\<lambda>(group, codes). map (\<lambda>code. (code, group)) codes) PROVINCE_GROUPS)"
  have d: "distinct (map fst (rev ?ps))"
    using distinct_all_province_codes
    by (simp add: rev_map [symmetric] code_group_pairs_keys all_province_codes_def)
  have "CODE_TO_GROUP c = map_of (rev ?ps) c"
    by (simp add: CODE_TO_GROUP_def fold_update_lookup split: option.splits)
  also have "\<dots> = Some g \<longleftrightarrow> (c, g) \<in> set (rev ?ps)"
    using d by (rule map_of_eq_Some_iff)
  finally show ?thesis
    by (simp only: set_rev code_group_pairs_set)
qed

lemma CODE_TO_GROUP_None_iff: "CODE_TO_GROUP c = None \<longleftrightarrow> c \<notin> set all_province_codes"
proof -
  have "CODE_TO_GROUP c \<noteq> None \<longleftrightarrow> (\<exists>g cs. (g, cs) \<in> set PROVINCE_GROUPS \<and> c \<in> set cs)"
    using CODE_TO_GROUP_iff [of c] by auto
  then show ?thesis
    by (auto simp: all_province_codes_def)
qed

lemma province_group_get_iff:
  "x \<in> set (province_group_get g) \<longleftrightarrow> (\<exists>cs. (g, cs) \<in> set PROVINCE_GROUPS \<and> x \<in> set cs)"
  using distinct_group_names
  by (auto simp: province_group_get_def split: option.splits dest: map_of_SomeD
      simp: map_of_eq_None_iff image_iff)

lemma all_province_codes_eval:
  "all_province_codes =
     [''12'', ''13'', ''14'', ''15'', ''21'', ''22'', ''23'', ''31'', ''32'', ''33'', ''34'',
      ''35'', ''36'', ''37'', ''41'', ''42'', ''43'', ''44'', ''45'', ''46'', ''50'', ''51'',
      ''52'', ''53'', ''54'', ''62'', ''63'', ''64'', ''65'']"
  by (simp add: all_province_codes_def PROVINCE_GROUPS_def)

section \<open>The low-zoom shortcut\<close>

lemma all_province_codes_union:
  "set all_province_codes = (\<Union>(group, codes) \<in> set PROVINCE_GROUPS. set codes)"
  by (auto simp: all_province_codes_def)


text \<open>
  Claim C2. For every \<open>z < 6\<close> and every \<open>x\<close>, \<open>y\<close> (and every environment),
  \<open>get_province_group\<close> prints nothing and returns the concatenation of the code lists
  of all groups, in the order of the table: the 29 configured codes, whose set is the
  union of the groups. The result does not depend on \<open>x\<close> and \<open>y\<close>.
\<close>

theorem low_zoom_returns_every_code:
  assumes "z < 6"
  shows "get_province_group e z x y = ([], Inr all_province_codes)
     \<and> set all_province_codes = (\<Union>(group, codes) \<in> set PROVINCE_GROUPS. set codes)
     \<and> all_province_codes =
         [''12'', ''13'', ''14'', ''15'', ''21'', ''22'', ''23'', ''31'', ''32'', ''33'',
          ''34'', ''35'', ''36'', ''37'', ''41'', ''42'', ''43'', ''44'', ''45'', ''46'',
          ''50'', ''51'', ''52'', ''53'', ''54'', ''62'', ''63'', ''64'', ''65'']"
proof (intro conjI)
  show "get_province_group e z x y = ([], Inr all_province_codes)"
    using assms by (simp add: get_province_group_def)
qed (rule all_province_codes_union all_province_codes_eval)+

theorem low_zoom_returns_every_code_witness:
  "get_province_group (sample_env []) 5 17 3 = ([], Inr all_province_codes)
   \<and> get_province_group (sample_env []) 0 0 0 = ([], Inr all_province_codes)"
proof -
  have "(5::nat) < 6" "(0::nat) < 6"
    by simp_all
  then show ?thesis
    by (intro conjI low_zoom_returns_every_code [THEN conjunct1])
qed

section \<open>The partition of the codes\<close>

text \<open>
  Claim C6, as amended. No code stands in two groups: the 29 codes of the table are
  distinct, the group names are distinct, \<open>CODE_TO_GROUP\<close> maps a code to a group
  exactly when the group's list holds the code, and so every configured code has
  exactly one group. A code outside the table has no group: \<open>CODE_TO_GROUP\<close> is
  \<open>None\<close> there, which the resolver reads as \<^verbatim>\<open>'unknown'\<close>.
\<close>

theorem group_table_disjoint:
  "distinct all_province_codes
   \<and> distinct (map fst PROVINCE_GROUPS)
   \<and> (\<forall>code group. CODE_TO_GROUP code = Some group
         \<longleftrightarrow> (\<exists>codes. (group, codes) \<in> set PROVINCE_GROUPS \<and> code \<in> set codes))
   \<and> (\<forall>code \<in> set all_province_codes.
         \<exists>!group. \<exists>codes. (group, codes) \<in> set PROVINCE_GROUPS \<and> code \<in> set codes)
   \<and> (\<forall>code. code \<notin> set all_province_codes \<longrightarrow> CODE_TO_GROUP code = None)"
proof (intro conjI allI ballI impI)
  show "distinct all_province_codes"
    by (rule distinct_all_province_codes)
  show "distinct (map fst PROVINCE_GROUPS)"
    by (rule distinct_group_names)
  show "CODE_TO_GROUP code = Some group
      \<longleftrightarrow> (\<exists>codes. (group, codes) \<in> set PROVINCE_GROUPS \<and> code \<in> set codes)" for code group
    by (rule CODE_TO_GROUP_iff)
  show "CODE_TO_GROUP code = None" if "code \<notin> set all_province_codes" for code
    using that by (simp add: CODE_TO_GROUP_None_iff)
  show "\<exists>!group. \<exists>codes. (group, codes) \<in> set PROVINCE_GROUPS \<and> code \<in> set codes"
    if "code \<in> set all_province_codes" for code
  proof -
    from that obtain group where g: "CODE_TO_GROUP code = Some group"
      using CODE_TO_GROUP_None_iff [of code] by auto
    show ?thesis
    proof (rule ex1I [of _ group])
      show "\<exists>codes. (group, codes) \<in> set PROVINCE_GROUPS \<and> code \<in> set codes"
        using g by (simp add: CODE_TO_GROUP_iff)
      show "group' = group"
        if "\<exists>codes. (group', codes) \<in> set PROVINCE_GROUPS \<and> code \<in> set codes" for group'
      proof -
        from that have "CODE_TO_GROUP code = Some group'"
          by (simp only: CODE_TO_GROUP_iff)
        with g show ?thesis by simp
      qed
    qed
  qed
qed

text \<open>Witness for C6: code 12 has the one group north; code 11 has none.\<close>

lemma CODE_TO_GROUP_12: "CODE_TO_GROUP ''12'' = Some ''north''"
  by (simp add: CODE_TO_GROUP_iff PROVINCE_GROUPS_def)

theorem group_table_disjoint_witness:
  "''12'' \<in> set all_province_codes
   \<and> (\<exists>!group. \<exists>codes. (group, codes) \<in> set PROVINCE_GROUPS \<and> ''12'' \<in> set codes)
   \<and> CODE_TO_GROUP ''12'' = Some ''north''
   \<and> ''11'' \<notin> set all_province_codes \<and> CODE_TO_GROUP ''11'' = None"
proof -
  have in12: "''12'' \<in> set all_province_codes" and out11: "''11'' \<notin> set all_province_codes"
    by (simp_all add: all_province_codes_eval)
  have unique: "\<forall>code \<in> set all_province_codes.
      \<exists>!group. \<exists>codes. (group, codes) \<in> set PROVINCE_GROUPS \<and> code \<in> set codes"
    and none: "\<forall>code. code \<notin> set all_province_codes \<longrightarrow> CODE_TO_GROUP code = None"
    using group_table_disjoint by blast+
  from unique in12
  have "\<exists>!group. \<exists>codes. (group, codes) \<in> set PROVINCE_GROUPS \<and> ''12'' \<in> set codes"
    by (rule bspec)
  moreover from none out11 have "CODE_TO_GROUP ''11'' = None"
    by blast
  ultimately show ?thesis
    using in12 out11 CODE_TO_GROUP_12 by (intro conjI)
qed

lemma province_group_get_unknown: "province_group_get ''unknown'' = []"
  by (simp add: province_group_get_def PROVINCE_GROUPS_def)

text \<open>
  Counterexample to C6 as stated (every handled code has a group): the codes 11 and 61
  are in no group. The program accepts them as keys of \<open>province_geometries\<close>: a
  geometry stored under 11 is matched like any other, and its expansion is empty.
\<close>

theorem code_without_group:
  "CODE_TO_GROUP ''11'' = None \<and> CODE_TO_GROUP ''61'' = None
   \<and> ''11'' \<notin> set all_province_codes \<and> ''61'' \<notin> set all_province_codes
   \<and> first_containing [(''11'', \<lambda>p. True)] (Fin 116, Fin 40) = Some ''11''
   \<and> group_expansion (sample_env [(''11'', \<lambda>p. True)]) [''11''] = []"
proof -
  have n: "CODE_TO_GROUP ''11'' = None" "CODE_TO_GROUP ''61'' = None"
    by (simp_all add: all_province_codes_eval CODE_TO_GROUP_None_iff)
  then show ?thesis
    by (simp add: all_province_codes_eval CODE_TO_GROUP_None_iff [symmetric]
        group_expansion_def group_of_def sample_env_def set_add_def province_group_get_unknown)
qed

section \<open>Adjacent tiles\<close>

text \<open>
  Claim C9, as amended. Whenever \<open>calculate_bbox\<close> returns a box for \<open>(z, x, y)\<close> and
  one for \<open>(z, x + 1, y)\<close>, the \<open>maxx\<close> of the first is the \<open>minx\<close> of the second,
  the very same float, and the two boxes have the same \<open>miny\<close> and \<open>maxy\<close>. For every
  zoom \<open>z \<le> 51\<close> and every \<open>x\<close>, \<open>y\<close> with \<open>x + 1 < 2 ^ z\<close> and \<open>y < 2 ^ z\<close> both
  boxes are returned, their edges are finite, and \<open>minx < maxx\<close>, \<open>miny < maxy\<close> hold
  in each. (At larger zooms a tile is narrower than the spacing of the floats near
  \<open>origin_shift\<close>, and the strict order is lost.)
\<close>

theorem calculate_bbox_adjacent_and_ordered:
  "(\<forall>minx miny maxx maxy minx' miny' maxx' maxy'.
      calculate_bbox z x y = Inr (minx, miny, maxx, maxy)
      \<and> calculate_bbox z (x + 1) y = Inr (minx', miny', maxx', maxy')
      \<longrightarrow> maxx = minx' \<and> miny = miny' \<and> maxy = maxy')
   \<and> (z \<le> 51 \<and> x + 1 < 2 ^ z \<and> y < 2 ^ z \<longrightarrow>
        (\<exists>minx miny maxx maxy maxx'.
           calculate_bbox z x y = Inr (Fin minx, Fin miny, Fin maxx, Fin maxy)
           \<and> calculate_bbox z (x + 1) y = Inr (Fin maxx, Fin miny, Fin maxx', Fin maxy)
           \<and> minx < maxx \<and> maxx < maxx' \<and> miny < maxy))"
proof (intro conjI allI impI)
  fix minx miny maxx maxy minx' miny' maxx' maxy'
  assume "calculate_bbox z x y = Inr (minx, miny, maxx, maxy)
      \<and> calculate_bbox z (x + 1) y = Inr (minx', miny', maxx', maxy')"
  then show "maxx = minx'" "miny = miny'" "maxy = maxy'"
    using calculate_bbox_shared_edge [of z x y minx miny maxx maxy minx' miny' maxx' maxy']
    by simp_all
next
  assume a: "z \<le> 51 \<and> x + 1 < 2 ^ z \<and> y < 2 ^ z"
  then have "x < 2 ^ z"
    by simp
  with a obtain minx miny maxx maxy where
    b: "calculate_bbox z x y = Inr (Fin minx, Fin miny, Fin maxx, Fin maxy)"
      "minx < maxx" "miny < maxy"
    using calculate_bbox_ordered [of z x y] by blast
  from a obtain minx' miny' maxx' maxy' where
    b': "calculate_bbox z (x + 1) y = Inr (Fin minx', Fin miny', Fin maxx', Fin maxy')"
      "minx' < maxx'"
    using calculate_bbox_ordered [of z "x + 1" y] by blast
  from b(1) b'(1) have "Fin maxx = Fin minx' \<and> Fin miny = Fin miny' \<and> Fin maxy = Fin maxy'"
    by (rule calculate_bbox_shared_edge)
  with b b' show "\<exists>minx miny maxx maxy maxx'.
           calculate_bbox z x y = Inr (Fin minx, Fin miny, Fin maxx, Fin maxy)
           \<and> calculate_bbox z (x + 1) y = Inr (Fin maxx, Fin miny, Fin maxx', Fin maxy)
           \<and> minx < maxx \<and> maxx < maxx' \<and> miny < maxy"
    by auto
qed

text \<open>Witness for C9: the tile of the program's own self-test and its right neighbour.\<close>

lemma calculate_bbox_test_tile:
  "calculate_bbox 18 215204 163762 =
     Inr (Fin (3452509495082075 / 268435456), Fin (- (335383646839871 / 67108864)),
          Fin (1726275265949581 / 134217728), Fin (- (670746775271199 / 134217728)))"
  by (simp add: calculate_bbox_def float_eval)

lemma calculate_bbox_test_tile_next:
  "calculate_bbox 18 215205 163762 =
     Inr (Fin (1726275265949581 / 134217728), Fin (- (335383646839871 / 67108864)),
          Fin (431573946089531 / 33554432), Fin (- (670746775271199 / 134217728)))"
  by (simp add: calculate_bbox_def float_eval)

theorem calculate_bbox_adjacent_and_ordered_witness:
  "calculate_bbox 18 215204 163762 =
     Inr (Fin (3452509495082075 / 268435456), Fin (- (335383646839871 / 67108864)),
          Fin (1726275265949581 / 134217728), Fin (- (670746775271199 / 134217728)))
   \<and> calculate_bbox 18 (215204 + 1) 163762 =
     Inr (Fin (1726275265949581 / 134217728), Fin (- (335383646839871 / 67108864)),
          Fin (431573946089531 / 33554432), Fin (- (670746775271199 / 134217728)))
   \<and> (18::nat) \<le> 51 \<and> (215204::nat) + 1 < 2 ^ 18 \<and> (163762::nat) < 2 ^ 18
   \<and> (\<exists>minx miny maxx maxy maxx'.
         calculate_bbox 18 215204 163762 = Inr (Fin minx, Fin miny, Fin maxx, Fin maxy)
         \<and> calculate_bbox 18 (215204 + 1) 163762 = Inr (Fin maxx, Fin miny, Fin maxx', Fin maxy)
         \<and> minx < maxx \<and> maxx < maxx' \<and> miny < maxy)"
proof -
  have r: "(18::nat) \<le> 51 \<and> (215204::nat) + 1 < 2 ^ 18 \<and> (163762::nat) < 2 ^ 18"
    by simp
  with calculate_bbox_adjacent_and_ordered [of 18 215204 163762]
  have "\<exists>minx miny maxx maxy maxx'.
         calculate_bbox 18 215204 163762 = Inr (Fin minx, Fin miny, Fin maxx, Fin maxy)
         \<and> calculate_bbox 18 (215204 + 1) 163762 = Inr (Fin maxx, Fin miny, Fin maxx', Fin maxy)
         \<and> minx < maxx \<and> maxx < maxx' \<and> miny < maxy"
    by blast
  moreover have "calculate_bbox 18 (215204 + 1) 163762 =
     Inr (Fin (1726275265949581 / 134217728), Fin (- (335383646839871 / 67108864)),
          Fin (431573946089531 / 33554432), Fin (- (670746775271199 / 134217728)))"
    using calculate_bbox_test_tile_next by simp
  ultimately show ?thesis
    using r calculate_bbox_test_tile by (intro conjI) simp_all
qed

text \<open>
  Counterexample to C9 as stated (every box has \<open>minx < maxx\<close> and \<open>miny < maxy\<close>):
  at zoom 55 the width of a tile, about \<open>1.1e-9\<close> meters, is less than half the
  spacing of the floats near \<open>origin_shift\<close> (\<open>2 ^ - 28\<close>, about \<open>3.7e-9\<close>), so for tile
  \<open>(55, 0, 0)\<close> the subtraction \<^verbatim>\<open>(x + 1) * tile_size * res - origin_shift\<close> rounds
  to \<open>- origin_shift\<close>: \<open>minx = maxx\<close>, and likewise \<open>miny = maxy\<close>.
\<close>

theorem calculate_bbox_degenerate:
  "calculate_bbox 55 0 0 =
     Inr (Fin (- (5378777689100435 / 268435456)), Fin (5378777689100435 / 268435456),
          Fin (- (5378777689100435 / 268435456)), Fin (5378777689100435 / 268435456))
   \<and> \<not> flt (Fin (- (5378777689100435 / 268435456))) (Fin (- (5378777689100435 / 268435456)))
   \<and> \<not> flt (Fin (5378777689100435 / 268435456)) (Fin (5378777689100435 / 268435456))"
  by (simp add: calculate_bbox_def float_eval)

section \<open>The request builder\<close>

lemma split_commas_append:
  "CHR '','' \<notin> set w \<Longrightarrow> split_commas (w @ CHR '','' # rest) = w # split_commas rest"
  by (induction w) (auto split: list.splits)

lemma split_commas_single: "CHR '','' \<notin> set w \<Longrightarrow> split_commas w = [w]"
  by (induction w) (auto split: list.splits)

lemma split_commas_join:
  assumes "ws \<noteq> []" "\<forall>w \<in> set ws. CHR '','' \<notin> set w"
  shows "split_commas (py_join '','' ws) = ws"
  using assms
proof (induction "'',''" ws rule: py_join.induct)
  case 1
  then show ?case by simp
next
  case (2 w)
  then show ?case by (simp add: split_commas_single)
next
  case (3 w v vs)
  then show ?case
    using split_commas_append [of w "py_join '','' (v # vs)"] by simp
qed

text \<open>
  Claim C8. For every list of codes the builder joins, with commas, one layer name
  \<^verbatim>\<open>QGSFKYFW:sf\<close> + code + \<^verbatim>\<open>0000\<close> per code and one copy of the style
  \<^verbatim>\<open>QGSFKYFW:shifeikongyu\<close> per code: read back entry by entry, the layers are the
  layer names of the codes in the order of the codes, and the styles are as many copies
  of the style, so that entry \<open>i\<close> of the styles stands for entry \<open>i\<close> of the layers.
  (Reading back needs a list that is not empty, for which both strings are empty, and
  codes that hold no comma, as all codes of the table do.)
\<close>

theorem request_layers_and_styles:
  "(provinces = [] \<longrightarrow> layers_of provinces = [] \<and> styles_of provinces = [])
   \<and> (provinces \<noteq> [] \<and> (\<forall>code \<in> set provinces. CHR '','' \<notin> set code) \<longrightarrow>
        split_commas (layers_of provinces)
          = map (\<lambda>code. ''QGSFKYFW:sf'' @ code @ ''0000'') provinces
        \<and> split_commas (styles_of provinces)
          = replicate (length provinces) ''QGSFKYFW:shifeikongyu''
        \<and> length (split_commas (layers_of provinces)) = length provinces
        \<and> length (split_commas (styles_of provinces)) = length provinces)"
proof (intro conjI impI)
  assume "provinces = []"
  then show "layers_of provinces = []" "styles_of provinces = []"
    by (simp_all add: layers_of_def styles_of_def)
next
  assume a: "provinces \<noteq> [] \<and> (\<forall>code \<in> set provinces. CHR '','' \<notin> set code)"
  then have "\<forall>w \<in> set (map layer_name provinces). CHR '','' \<notin> set w"
    by (simp add: layer_name_def)
  with a show l: "split_commas (layers_of provinces)
          = map (\<lambda>code. ''QGSFKYFW:sf'' @ code @ ''0000'') provinces"
    unfolding layers_of_def
    by (subst split_commas_join) (simp_all add: layer_name_def)
  have "\<forall>w \<in> set (replicate (length provinces) ''QGSFKYFW:shifeikongyu''). CHR '','' \<notin> set w"
    by simp
  with a show s: "split_commas (styles_of provinces)
          = replicate (length provinces) ''QGSFKYFW:shifeikongyu''"
    unfolding styles_of_def
    by (subst split_commas_join) simp_all
  show "length (split_commas (layers_of provinces)) = length provinces"
    by (simp add: l)
  show "length (split_commas (styles_of provinces)) = length provinces"
    by (simp add: s)
qed

text \<open>Witness for C8: the codes 11 and 12 give two layers and two identical styles.\<close>

theorem request_layers_and_styles_witness:
  "layers_of [''11'', ''12''] = ''QGSFKYFW:sf110000,QGSFKYFW:sf120000''
   \<and> styles_of [''11'', ''12''] = ''QGSFKYFW:shifeikongyu,QGSFKYFW:shifeikongyu''
   \<and> split_commas (layers_of [''11'', ''12'']) = [''QGSFKYFW:sf110000'', ''QGSFKYFW:sf120000'']
   \<and> split_commas (styles_of [''11'', ''12''])
       = [''QGSFKYFW:shifeikongyu'', ''QGSFKYFW:shifeikongyu'']"
proof -
  have "[''11'', ''12''] \<noteq> [] \<and> (\<forall>code \<in> set [''11'', ''12'']. CHR '','' \<notin> set code)"
    by simp
  with request_layers_and_styles [of "[''11'', ''12'']"]
  have "split_commas (layers_of [''11'', ''12''])
          = map (\<lambda>code. ''QGSFKYFW:sf'' @ code @ ''0000'') [''11'', ''12'']"
    and "split_commas (styles_of [''11'', ''12''])
          = replicate (length [''11'', ''12'']) ''QGSFKYFW:shifeikongyu''"
    by blast+
  moreover have "layers_of [''11'', ''12''] = ''QGSFKYFW:sf110000,QGSFKYFW:sf120000''"
    by (simp add: layers_of_def layer_name_def)
  moreover have "styles_of [''11'', ''12''] = ''QGSFKYFW:shifeikongyu,QGSFKYFW:shifeikongyu''"
    by (simp add: styles_of_def numeral_2_eq_2)
  ultimately show ?thesis
    by (simp add: numeral_2_eq_2)
qed

section \<open>The endpoint\<close>

lemma get_tile_cases:
  "get_tile e z x y =
     (fst (wms_to_xyz e z x y) @
        (case snd (wms_to_xyz e z x y) of Inl err \<Rightarrow> [Error_generating_tile err] | Inr d \<Rightarrow> []),
      (case snd (wms_to_xyz e z x y) of Inl err \<Rightarrow> transparent_png | Inr d \<Rightarrow> d),
      200, [(''Content-Type'', ''image/png'')])"
  by (cases "wms_to_xyz e z x y") (auto simp: get_tile_def split: sum.splits)

lemma wms_to_xyz_result:
  "snd (wms_to_xyz e z x y) =
     py_bind (snd (get_province_group e z x y)) (\<lambda>provinces.
     py_bind (calculate_bbox z x y) (\<lambda>bb. requests_get e (build_params provinces bb)))"
  by (cases "get_province_group e z x y") (simp add: wms_to_xyz_def)

text \<open>
  Claim C10. For every request and every environment \<open>get_tile\<close> answers with status
  200 and the one header \<^verbatim>\<open>Content-Type: image/png\<close>. The body is the content of
  the upstream's response when the resolver, \<open>calculate_bbox\<close> and the fetch all
  returned; it is the literal 1x1 transparent PNG when any of the three raised.
\<close>

theorem get_tile_always_200:
  "\<exists>printed body.
     get_tile e z x y = (printed, body, 200, [(''Content-Type'', ''image/png'')])
     \<and> (\<forall>provinces bb tile_data.
           snd (get_province_group e z x y) = Inr provinces
           \<and> calculate_bbox z x y = Inr bb
           \<and> requests_get e (build_params provinces bb) = Inr tile_data
           \<longrightarrow> body = tile_data)
     \<and> ((\<exists>err. snd (get_province_group e z x y) = Inl err)
         \<or> (\<exists>err. calculate_bbox z x y = Inl err)
         \<or> (\<exists>provinces bb err.
               snd (get_province_group e z x y) = Inr provinces
               \<and> calculate_bbox z x y = Inr bb
               \<and> requests_get e (build_params provinces bb) = Inl err)
         \<longrightarrow> body = transparent_png)"
proof -
  let ?body = "case snd (wms_to_xyz e z x y) of Inl err \<Rightarrow> transparent_png | Inr d \<Rightarrow> d"
  have ok: "?body = tile_data"
    if "snd (get_province_group e z x y) = Inr provinces \<and> calculate_bbox z x y = Inr bb
        \<and> requests_get e (build_params provinces bb) = Inr tile_data"
    for provinces bb tile_data
    using that by (simp add: wms_to_xyz_result)
  have failed: "?body = transparent_png"
    if "(\<exists>err. snd (get_province_group e z x y) = Inl err)
         \<or> (\<exists>err. calculate_bbox z x y = Inl err)
         \<or> (\<exists>provinces bb err.
               snd (get_province_group e z x y) = Inr provinces
               \<and> calculate_bbox z x y = Inr bb
               \<and> requests_get e (build_params provinces bb) = Inl err)"
    using that
    by (cases "snd (get_province_group e z x y)") (auto simp: wms_to_xyz_result)
  show ?thesis
    using ok failed by (subst get_tile_cases) blast
qed

text \<open>
  Witness for C10: a low-zoom tile with a reachable upstream, the same tile with an
  upstream that raises, and a tile whose zoom makes \<open>calculate_bbox\<close> raise.
\<close>

lemma calculate_bbox_5_0_0:
  "calculate_bbox 5 0 0 =
     Inr (Fin (- (5378777689100435 / 268435456)), Fin (2521302041765829 / 134217728),
          Fin (- (2521302041765829 / 134217728)), Fin (5378777689100435 / 268435456))"
  by (simp add: calculate_bbox_def float_eval)

lemma calculate_bbox_overflow: "calculate_bbox 1016 0 0 = Inl OverflowError"
  by (simp add: calculate_bbox_def float_eval)

theorem get_tile_always_200_witness:
  "get_tile (sample_env []) 5 0 0 = ([], [0x89, 0x50], 200, [(''Content-Type'', ''image/png'')])
   \<and> get_tile (offline_env []) 5 0 0
       = ([Error_generating_tile RequestException], transparent_png, 200,
          [(''Content-Type'', ''image/png'')])
   \<and> get_tile (sample_env []) 1016 0 0
       = ([Error_generating_tile OverflowError], transparent_png, 200,
          [(''Content-Type'', ''image/png'')])"
proof (intro conjI)
  let ?hdr = "[(''Content-Type'', ''image/png'')]"
  let ?bb = "(Fin (- (5378777689100435 / 268435456)), Fin (2521302041765829 / 134217728),
          Fin (- (2521302041765829 / 134217728)), Fin (5378777689100435 / 268435456))"
  have low: "get_province_group e 5 0 0 = ([], Inr all_province_codes)" for e
    by (simp add: get_province_group_def)
  have high: "get_province_group e 1016 0 0 = ([], Inl OverflowError)" for e
    by (simp add: get_province_group_def calculate_bbox_overflow)
  show "get_tile (sample_env []) 5 0 0 = ([], [0x89, 0x50], 200, ?hdr)"
  proof -
    obtain printed body where
      t: "get_tile (sample_env []) 5 0 0 = (printed, body, 200, ?hdr)"
      and ok: "\<forall>provinces bb tile_data.
           snd (get_province_group (sample_env []) 5 0 0) = Inr provinces
           \<and> calculate_bbox 5 0 0 = Inr bb
           \<and> requests_get (sample_env []) (build_params provinces bb) = Inr tile_data
           \<longrightarrow> body = tile_data"
      using get_tile_always_200 [of "sample_env []" 5 0 0] by blast
    have "body = [0x89, 0x50]"
      using ok [rule_format, of all_province_codes ?bb "[0x89, 0x50]"]
      by (simp add: low calculate_bbox_5_0_0 sample_env_def)
    moreover have "printed = []"
      using t by (simp add: get_tile_cases wms_to_xyz_def low calculate_bbox_5_0_0 sample_env_def)
    ultimately show ?thesis
      using t by simp
  qed
  show "get_tile (offline_env []) 5 0 0
       = ([Error_generating_tile RequestException], transparent_png, 200, ?hdr)"
    by (simp add: get_tile_cases wms_to_xyz_def low calculate_bbox_5_0_0 sample_env_def
        offline_env_def)
  show "get_tile (sample_env []) 1016 0 0
       = ([Error_generating_tile OverflowError], transparent_png, 200, ?hdr)"
    by (simp add: get_tile_cases wms_to_xyz_def high)
qed

section \<open>The matching loops\<close>

lemma set_set_add [simp]: "set (set_add s c) = insert c (set s)"
  by (auto simp: set_add_def)

lemma distinct_set_add [simp]: "distinct (set_add s c) = distinct s"
  by (simp add: set_add_def)

lemma set_add_not_Nil [simp]: "set_add s c \<noteq> []"
  by (auto simp: set_add_def)

lemma first_containing_None_iff:
  "first_containing items p = None \<longleftrightarrow> (\<forall>(code, g) \<in> set items. \<not> g p)"
  by (induction items) (auto split: if_splits)

lemma first_containing_Some_iff:
  "first_containing items p = Some code \<longleftrightarrow>
     (\<exists>i < length items. fst (items ! i) = code \<and> snd (items ! i) p
        \<and> (\<forall>j < i. \<not> snd (items ! j) p))"
proof (induction items)
  case Nil
  then show ?case by simp
next
  case (Cons item items)
  obtain c g where item: "item = (c, g)"
    by (cases item)
  show ?case
  proof (cases "g p")
    case True
    have "(\<exists>i < length (item # items). fst ((item # items) ! i) = code
            \<and> snd ((item # items) ! i) p \<and> (\<forall>j < i. \<not> snd ((item # items) ! j) p))
          \<longleftrightarrow> c = code"
    proof
      assume "\<exists>i < length (item # items). fst ((item # items) ! i) = code
            \<and> snd ((item # items) ! i) p \<and> (\<forall>j < i. \<not> snd ((item # items) ! j) p)"
      then obtain i where i: "fst ((item # items) ! i) = code"
        "\<forall>j < i. \<not> snd ((item # items) ! j) p"
        by blast
      from i(2) True item have "i = 0"
        by (cases i) auto
      with i(1) item show "c = code"
        by simp
    next
      assume "c = code"
      with True item show "\<exists>i < length (item # items). fst ((item # items) ! i) = code
            \<and> snd ((item # items) ! i) p \<and> (\<forall>j < i. \<not> snd ((item # items) ! j) p)"
        by (intro exI [of _ 0]) simp
    qed
    with True item show ?thesis
      by auto
  next
    case False
    have "(\<exists>i < length (item # items). fst ((item # items) ! i) = code
            \<and> snd ((item # items) ! i) p \<and> (\<forall>j < i. \<not> snd ((item # items) ! j) p))
          \<longleftrightarrow> (\<exists>i < length items. fst (items ! i) = code \<and> snd (items ! i) p
                \<and> (\<forall>j < i. \<not> snd (items ! j) p))"
      (is "?l \<longleftrightarrow> ?r")
    proof
      assume ?l
      then obtain i where i: "i < length (item # items)" "fst ((item # items) ! i) = code"
        "snd ((item # items) ! i) p" "\<forall>j < i. \<not> snd ((item # items) ! j) p"
        by blast
      with False item obtain k where k: "i = Suc k"
        by (cases i) auto
      have "\<forall>j < k. \<not> snd (items ! j) p"
      proof (intro allI impI)
        fix j assume "j < k"
        then have "Suc j < i" using k by simp
        with i(4) have "\<not> snd ((item # items) ! Suc j) p" by blast
        then show "\<not> snd (items ! j) p" by simp
      qed
      with i k show ?r
        by (intro exI [of _ k]) simp
    next
      assume ?r
      then obtain k where k: "k < length items" "fst (items ! k) = code"
        "snd (items ! k) p" "\<forall>j < k. \<not> snd (items ! j) p"
        by blast
      have "\<forall>j < Suc k. \<not> snd ((item # items) ! j) p"
      proof (intro allI impI)
        fix j assume j: "j < Suc k"
        show "\<not> snd ((item # items) ! j) p"
        proof (cases j)
          case 0
          with False item show ?thesis by simp
        next
          case (Suc j')
          with j k(4) show ?thesis by simp
        qed
      qed
      with k show ?l
        by (intro exI [of _ "Suc k"]) simp
    qed
    with False item Cons.IH show ?thesis
      by simp
  qed
qed

lemma set_match_points:
  "set (match_points items ps matched) =
     set matched \<union> {code. \<exists>p \<in> set ps. first_containing items p = Some code}"
  by (induction ps arbitrary: matched) (auto split: option.splits)

lemma distinct_match_points:
  "distinct matched \<Longrightarrow> distinct (match_points items ps matched)"
  by (induction ps arbitrary: matched) (auto split: option.splits)

lemma match_points_Nil_iff:
  "match_points items ps matched = [] \<longleftrightarrow>
     matched = [] \<and> (\<forall>p \<in> set ps. first_containing items p = None)"
  by (induction ps arbitrary: matched) (auto split: option.splits)

lemma match_edge_points_Nil_iff:
  "match_edge_points items ps [] = [] \<longleftrightarrow> (\<forall>p \<in> set ps. first_containing items p = None)"
  by (induction ps) (auto split: option.splits)

lemma match_edge_points_single:
  "match_edge_points items ps [] \<noteq> [] \<Longrightarrow>
     \<exists>p \<in> set ps. \<exists>code. first_containing items p = Some code
        \<and> match_edge_points items ps [] = [code]"
  by (induction ps) (auto split: option.splits simp: set_add_def)

section \<open>Group expansion\<close>

lemma fold_set_add:
  "set (fold (\<lambda>x s. set_add s (f x)) xs acc) = set acc \<union> f ` set xs"
  by (induction xs arbitrary: acc) auto

lemma fold_set_add_distinct:
  "distinct acc \<Longrightarrow> distinct (fold (\<lambda>x s. set_add s (f x)) xs acc)"
  by (induction xs arbitrary: acc) auto

lemma unknown_is_no_group: "(''unknown'', codes) \<notin> set PROVINCE_GROUPS"
  by (simp add: PROVINCE_GROUPS_def)

lemma group_of_in_table:
  "(group_of code, codes) \<in> set PROVINCE_GROUPS \<longleftrightarrow>
     code \<in> set codes \<and> (\<exists>group. (group, codes) \<in> set PROVINCE_GROUPS)"
proof (cases "CODE_TO_GROUP code")
  case None
  then have "\<not> (\<exists>g cs. (g, cs) \<in> set PROVINCE_GROUPS \<and> code \<in> set cs)"
    using CODE_TO_GROUP_iff [of code] by auto
  with None show ?thesis
    by (auto simp: group_of_def unknown_is_no_group)
next
  case (Some g)
  then obtain cs where cs: "(g, cs) \<in> set PROVINCE_GROUPS" "code \<in> set cs"
    by (auto simp: CODE_TO_GROUP_iff)
  have unique: "cs' = cs" if "(g, cs') \<in> set PROVINCE_GROUPS" for cs'
    using that cs(1) distinct_group_names by (meson eq_key_imp_eq_value)
  show ?thesis
  proof
    assume "(group_of code, codes) \<in> set PROVINCE_GROUPS"
    with Some have "(g, codes) \<in> set PROVINCE_GROUPS"
      by (simp add: group_of_def)
    with unique cs show "code \<in> set codes \<and> (\<exists>group. (group, codes) \<in> set PROVINCE_GROUPS)"
      by auto
  next
    assume a: "code \<in> set codes \<and> (\<exists>group. (group, codes) \<in> set PROVINCE_GROUPS)"
    then obtain g' where g': "(g', codes) \<in> set PROVINCE_GROUPS"
      by blast
    with a have "CODE_TO_GROUP code = Some g'"
      by (auto simp: CODE_TO_GROUP_iff)
    with Some g' show "(group_of code, codes) \<in> set PROVINCE_GROUPS"
      by (simp add: group_of_def)
  qed
qed

lemma set_group_expansion:
  assumes "set_order_ok e" "distinct matched"
  shows "set (group_expansion e matched) =
           (\<Union>(group, codes) \<in> {(group, codes) \<in> set PROVINCE_GROUPS. set codes \<inter> set matched \<noteq> {}}.
              set codes)"
proof -
  define groups where
    "groups = fold (\<lambda>code s. set_add s (group_of code)) (set_order e matched) []"
  have m: "set (set_order e matched) = set matched"
    using assms by (simp add: set_order_ok_def)
  have "distinct groups"
    unfolding groups_def by (rule fold_set_add_distinct) simp
  then have g: "set (set_order e groups) = set groups"
    using assms(1) by (simp add: set_order_ok_def)
  have groups: "set groups = group_of ` set matched"
    by (simp add: groups_def fold_set_add m)
  have "group_expansion e matched = concat (map province_group_get (set_order e groups))"
    by (simp add: group_expansion_def groups_def)
  then have "set (group_expansion e matched) = (\<Union>g \<in> group_of ` set matched. set (province_group_get g))"
    by (simp add: g groups)
  also have "\<dots> = (\<Union>(group, codes) \<in> {(group, codes) \<in> set PROVINCE_GROUPS. set codes \<inter> set matched \<noteq> {}}.
              set codes)"
  proof (intro set_eqI iffI)
    fix c
    assume "c \<in> (\<Union>g \<in> group_of ` set matched. set (province_group_get g))"
    then obtain code where code: "code \<in> set matched" "c \<in> set (province_group_get (group_of code))"
      by blast
    then obtain codes where codes: "(group_of code, codes) \<in> set PROVINCE_GROUPS" "c \<in> set codes"
      by (auto simp: province_group_get_iff)
    then have "code \<in> set codes"
      by (simp add: group_of_in_table)
    with code(1) codes show "c \<in> (\<Union>(group, codes) \<in> {(group, codes) \<in> set PROVINCE_GROUPS. set codes \<inter> set matched \<noteq> {}}.
              set codes)"
      by auto
  next
    fix c
    assume "c \<in> (\<Union>(group, codes) \<in> {(group, codes) \<in> set PROVINCE_GROUPS. set codes \<inter> set matched \<noteq> {}}.
              set codes)"
    then obtain group codes code where
      gc: "(group, codes) \<in> set PROVINCE_GROUPS" "c \<in> set codes"
        "code \<in> set codes" "code \<in> set matched"
      by auto
    then have "(group_of code, codes) \<in> set PROVINCE_GROUPS"
      by (auto simp: group_of_in_table)
    with gc(2) have "c \<in> set (province_group_get (group_of code))"
      by (auto simp: province_group_get_iff)
    with gc(4) show "c \<in> (\<Union>g \<in> group_of ` set matched. set (province_group_get g))"
      by blast
  qed
  finally show ?thesis .
qed

lemma fallback_group_cases:
  "fallback_group p \<in> {province_group ''northeast'', province_group ''northwest'',
     province_group ''southwest'', province_group ''central'', province_group ''east'',
     province_group ''north''}"
  by (cases p) (simp add: fallback_group_def)

lemma fallback_group_nonempty:
  "\<exists>group codes. (group, codes) \<in> set PROVINCE_GROUPS \<and> codes \<noteq> []
      \<and> fallback_group p = Inr codes"
proof -
  have "\<exists>group codes. (group, codes) \<in> set PROVINCE_GROUPS \<and> codes \<noteq> []
      \<and> province_group key = Inr codes"
    if "key \<in> {''northeast'', ''northwest'', ''southwest'', ''central'', ''east'', ''north''}"
    for key
    using that by (auto simp: province_group_def PROVINCE_GROUPS_def)
  then show ?thesis
    using fallback_group_cases [of p] by auto
qed

lemma group_expansion_concat:
  assumes "set_order_ok e" "distinct matched"
  shows "\<exists>groups. distinct groups \<and> set groups = group_of ` set matched
           \<and> group_expansion e matched = concat (map province_group_get groups)"
proof -
  define groups where
    "groups = fold (\<lambda>code s. set_add s (group_of code)) (set_order e matched) []"
  have m: "set (set_order e matched) = set matched"
    using assms by (simp add: set_order_ok_def)
  have d: "distinct groups"
    unfolding groups_def by (rule fold_set_add_distinct) simp
  then have g: "set (set_order e groups) = set groups" "distinct (set_order e groups)"
    using assms(1) by (simp_all add: set_order_ok_def)
  have "set groups = group_of ` set matched"
    by (simp add: groups_def fold_set_add m)
  moreover have "group_expansion e matched = concat (map province_group_get (set_order e groups))"
    by (simp add: group_expansion_def groups_def)
  ultimately show ?thesis
    using g by (intro exI [of _ "set_order e groups"]) simp
qed

section \<open>The branches of the resolver\<close>

lemma get_province_group_coarse:
  assumes "6 \<le> z" "calculate_bbox z x y = Inr bb" "coarse_points e bb = Inr points"
    and "match_points (province_geometries e) points [] \<noteq> []"
  shows "get_province_group e z x y =
           ([], Inr (group_expansion e (match_points (province_geometries e) points [])))"
  using assms by (simp add: get_province_group_def Let_def)

lemma get_province_group_dense:
  assumes "6 \<le> z" "calculate_bbox z x y = Inr bb" "coarse_points e bb = Inr points"
    and "match_points (province_geometries e) points [] = []"
    and "edge_points e bb = Inr edges"
    and "match_edge_points (province_geometries e) edges [] \<noteq> []"
  shows "get_province_group e z x y =
           ([No_province_matched z x y],
            Inr (group_expansion e (match_edge_points (province_geometries e) edges [])))"
  using assms by (simp add: get_province_group_def Let_def)

lemma get_province_group_fallback:
  assumes "6 \<le> z" "calculate_bbox z x y = Inr bb" "coarse_points e bb = Inr points"
    and "match_points (province_geometries e) points [] = []"
    and "edge_points e bb = Inr edges"
    and "match_edge_points (province_geometries e) edges [] = []"
  shows "get_province_group e z x y =
           ([No_province_matched z x y, Still_no_province_matched z x y],
            fallback_group (points ! 0))"
  using assms by (simp add: get_province_group_def Let_def)

section \<open>Whole groups\<close>

text \<open>
  Claim C4. For every set of matched codes (and every iteration order of sets), the
  result of group expansion holds exactly the codes of the groups that contain a
  matched code: it is the union of those groups' lists. Every group of the table is
  wholly inside the result or wholly outside it, a matched code that has no group is
  not in it, and as a list the result is the concatenation of the lists of the
  distinct groups of the matched codes (\<^verbatim>\<open>'unknown'\<close> contributing nothing). This
  expansion is what the resolver returns when the nine sample points matched a
  non-empty set.
\<close>

theorem group_expansion_whole_groups:
  assumes "set_order_ok e" "distinct matched"
  shows "set (group_expansion e matched) =
           (\<Union>(group, codes) \<in> {(group, codes) \<in> set PROVINCE_GROUPS. set codes \<inter> set matched \<noteq> {}}.
              set codes)
     \<and> (\<forall>(group, codes) \<in> set PROVINCE_GROUPS.
           set codes \<subseteq> set (group_expansion e matched)
           \<or> set codes \<inter> set (group_expansion e matched) = {})
     \<and> (\<forall>code \<in> set matched. CODE_TO_GROUP code = None \<longrightarrow> code \<notin> set (group_expansion e matched))
     \<and> (\<exists>groups. distinct groups \<and> set groups = group_of ` set matched
           \<and> group_expansion e matched = concat (map province_group_get groups))
     \<and> (\<forall>z x y bb points.
           6 \<le> z \<and> calculate_bbox z x y = Inr bb \<and> coarse_points e bb = Inr points
           \<and> match_points (province_geometries e) points [] = matched \<and> matched \<noteq> []
           \<longrightarrow> get_province_group e z x y = ([], Inr (group_expansion e matched)))"
proof (intro conjI)
  let ?r = "set (group_expansion e matched)"
  show eq: "?r = (\<Union>(group, codes) \<in> {(group, codes) \<in> set PROVINCE_GROUPS. set codes \<inter> set matched \<noteq> {}}.
              set codes)"
    using assms by (rule set_group_expansion)
  have disjoint: "codes = codes'"
    if "(group, codes) \<in> set PROVINCE_GROUPS" "(group', codes') \<in> set PROVINCE_GROUPS"
      "c \<in> set codes" "c \<in> set codes'" for group codes group' codes' c
  proof -
    from that have "CODE_TO_GROUP c = Some group" "CODE_TO_GROUP c = Some group'"
      by (auto simp: CODE_TO_GROUP_iff)
    then have "group = group'"
      by simp
    with that(1,2) show ?thesis
      using distinct_group_names by (meson eq_key_imp_eq_value)
  qed
  show "\<forall>(group, codes) \<in> set PROVINCE_GROUPS. set codes \<subseteq> ?r \<or> set codes \<inter> ?r = {}"
  proof
    fix gc
    assume gc_in: "gc \<in> set PROVINCE_GROUPS"
    obtain group codes where gc: "gc = (group, codes)"
      by (cases gc)
    have "set codes \<subseteq> ?r \<or> set codes \<inter> ?r = {}"
    proof (cases "set codes \<inter> ?r = {}")
      case True
      then show ?thesis by simp
    next
      case False
      then obtain c where c: "c \<in> set codes" "c \<in> ?r"
        by blast
      from c(2) obtain group' codes' where
        g': "(group', codes') \<in> set PROVINCE_GROUPS" "set codes' \<inter> set matched \<noteq> {}"
          "c \<in> set codes'"
        unfolding eq by auto
      with gc_in gc c(1) have "codes = codes'"
        by (intro disjoint [of group codes group' codes' c]) simp_all
      with g' have "set codes \<subseteq> ?r"
        unfolding eq by auto
      then show ?thesis by simp
    qed
    with gc show "case gc of (group, codes) \<Rightarrow>
        set codes \<subseteq> ?r \<or> set codes \<inter> ?r = {}"
      by simp
  qed
  show "\<forall>code \<in> set matched. CODE_TO_GROUP code = None \<longrightarrow> code \<notin> ?r"
  proof (intro ballI impI notI)
    fix code
    assume "CODE_TO_GROUP code = None" "code \<in> ?r"
    then show False
      unfolding eq by (auto simp: CODE_TO_GROUP_None_iff all_province_codes_def)
  qed
  show "\<exists>groups. distinct groups \<and> set groups = group_of ` set matched
           \<and> group_expansion e matched = concat (map province_group_get groups)"
    using assms by (rule group_expansion_concat)
  show "\<forall>z x y bb points.
           6 \<le> z \<and> calculate_bbox z x y = Inr bb \<and> coarse_points e bb = Inr points
           \<and> match_points (province_geometries e) points [] = matched \<and> matched \<noteq> []
           \<longrightarrow> get_province_group e z x y = ([], Inr (group_expansion e matched))"
    using get_province_group_coarse [of _ _ _ _ e] by blast
qed

text \<open>
  Witness for C4: the matched codes 12, 11 and 31 expand to the groups north and east,
  whole; 11, which has no group, is dropped.
\<close>

lemma set_order_ok_sample_env [simp]: "set_order_ok (sample_env items)"
  by (simp add: set_order_ok_def sample_env_def)

lemma group_of_eval:
  "group_of ''12'' = ''north''" "group_of ''11'' = ''unknown''" "group_of ''31'' = ''east''"
  by (simp_all add: group_of_def CODE_TO_GROUP_def PROVINCE_GROUPS_def)

lemma group_expansion_sample:
  "group_expansion (sample_env items) [''12'', ''11'', ''31''] =
     [''12'', ''13'', ''14'', ''15'', ''31'', ''32'', ''33'', ''34'', ''35'', ''36'', ''37'']"
  by (simp add: group_expansion_def sample_env_def group_of_eval set_add_def
      province_group_get_def PROVINCE_GROUPS_def)

theorem group_expansion_whole_groups_witness:
  "set_order_ok (sample_env []) \<and> distinct [''12'', ''11'', ''31'']
   \<and> group_expansion (sample_env []) [''12'', ''11'', ''31''] =
       [''12'', ''13'', ''14'', ''15'', ''31'', ''32'', ''33'', ''34'', ''35'', ''36'', ''37'']
   \<and> set (group_expansion (sample_env []) [''12'', ''11'', ''31'']) =
       (\<Union>(group, codes) \<in> {(group, codes) \<in> set PROVINCE_GROUPS.
            set codes \<inter> set [''12'', ''11'', ''31''] \<noteq> {}}. set codes)
   \<and> ''11'' \<notin> set (group_expansion (sample_env []) [''12'', ''11'', ''31''])"
proof -
  have h: "set_order_ok (sample_env [])" "distinct [''12'', ''11'', ''31'']"
    by simp_all
  from group_expansion_whole_groups [OF h]
  have "set (group_expansion (sample_env []) [''12'', ''11'', ''31'']) =
       (\<Union>(group, codes) \<in> {(group, codes) \<in> set PROVINCE_GROUPS.
            set codes \<inter> set [''12'', ''11'', ''31''] \<noteq> {}}. set codes)"
    by (rule conjunct1)
  moreover have "''11'' \<notin> set (group_expansion (sample_env []) [''12'', ''11'', ''31''])"
    by (simp add: group_expansion_sample)
  ultimately show ?thesis
    using h group_expansion_sample by (intro conjI)
qed

section \<open>When the projection raises nothing\<close>

lemma rnd_bounded:
  assumes "\<bar>q\<bar> \<le> b" "b \<le> 2 ^ 52"
  obtains r where "rnd q = Fin r" and "\<bar>r\<bar> \<le> b + 1"
proof -
  have q: "\<bar>q\<bar> \<le> 2 ^ 52"
    using assms by linarith
  also have "(2::real) ^ 52 \<le> 2 ^ 1023"
    by (intro power_increasing) simp_all
  finally obtain r where r: "rnd q = Fin r" "\<bar>r - q\<bar> \<le> \<bar>q\<bar> / 2 ^ 53 + 1 / 2 ^ 1075"
    by (rule rnd_rel_error)
  have "\<bar>q\<bar> / 2 ^ 53 \<le> 2 ^ 52 / 2 ^ 53"
    using q by (intro divide_right_mono) simp_all
  moreover have "(1::real) / 2 ^ 1075 \<le> 1 / 2 ^ 1"
    by (intro divide_left_mono power_increasing) simp_all
  ultimately have "\<bar>r - q\<bar> \<le> 1"
    using r(2) by simp
  with assms(1) have "\<bar>r\<bar> \<le> b + 1"
    by linarith
  with r(1) show ?thesis
    by (rule that)
qed

lemma truediv_total: "b \<noteq> 0 \<Longrightarrow> \<exists>r. truediv a (Fin b) = Inr r"
  by (cases a) simp_all

lemma interpolate_total: "\<exists>v. interpolate lo hi k = Inr v"
proof -
  obtain t where "truediv (fmul (fsub hi lo) (Fin (of_nat k))) (Fin 256) = Inr t"
    using truediv_total [of 256] by auto
  then show ?thesis
    by (simp add: interpolate_def)
qed

lemma interpolate_bounded:
  assumes "\<bar>lo\<bar> \<le> 20037509" "\<bar>hi\<bar> \<le> 20037509" "k \<le> 255"
  obtains v where "interpolate (Fin lo) (Fin hi) k = Inr (Fin v)" and "\<bar>v\<bar> \<le> 60112531"
proof -
  have "\<bar>hi - lo\<bar> \<le> 40075018"
    using assms(1,2) by linarith
  then obtain d where d: "rnd (hi - lo) = Fin d" "\<bar>d\<bar> \<le> 40075018 + 1"
    by (rule rnd_bounded) simp
  have "real k \<le> 255"
    using assms(3) by simp
  then have "\<bar>d\<bar> * real k \<le> 40075019 * 255"
    using d(2) by (intro mult_mono) simp_all
  then have "\<bar>d * real k\<bar> \<le> 10219129845"
    by (simp add: abs_mult)
  then obtain m where m: "rnd (d * real k) = Fin m" "\<bar>m\<bar> \<le> 10219129845 + 1"
    by (rule rnd_bounded) simp
  have "\<bar>m / 256\<bar> \<le> 40075020"
    using m(2) by simp
  then obtain t where t: "rnd (m / 256) = Fin t" "\<bar>t\<bar> \<le> 40075020 + 1"
    by (rule rnd_bounded) simp
  have "\<bar>lo + t\<bar> \<le> 60112530"
    using assms(1) t(2) by linarith
  then obtain v where v: "rnd (lo + t) = Fin v" "\<bar>v\<bar> \<le> 60112530 + 1"
    by (rule rnd_bounded) simp
  have "interpolate (Fin lo) (Fin hi) k = Inr (Fin v)"
    by (simp add: interpolate_def fsub_def d(1) m(1) t(1) v(1))
  then show ?thesis
    using v(2) by (intro that [of v]) simp_all
qed

lemma mercator_to_lnglat_succeeds:
  assumes "math_exp_defined e 11" "\<bar>y\<bar> \<le> 60112531"
  shows "\<exists>p. mercator_to_lnglat e mx (Fin y) = Inr p"
proof -
  obtain xr where xr: "truediv mx earth_radius = Inr xr"
    using truediv_total [of 6378137 mx] by (auto simp: earth_radius_def)
  obtain lng where lng: "truediv (fmul xr (Fin 180)) math_pi = Inr lng"
    using truediv_total [of "884279719003555 / 2 ^ 48"] by (auto simp: math_pi_def)
  have "\<bar>y / 6378137\<bar> \<le> 10"
    using assms(2) by simp
  then obtain yr where yr: "rnd (y / 6378137) = Fin yr" "\<bar>yr\<bar> \<le> 10 + 1"
    by (rule rnd_bounded) simp
  then have "yr \<le> 11"
    by simp
  then obtain ex where ex: "math_exp e (Fin yr) = Inr ex"
    using assms(1) by (auto simp: math_exp_defined_def)
  obtain half_pi where hp: "truediv math_pi (Fin 2) = Inr half_pi"
    using truediv_total [of 2 math_pi] by auto
  obtain lat where
    lat: "truediv (fmul (fsub (fmul (math_atan e ex) (Fin 2)) half_pi) (Fin 180)) math_pi = Inr lat"
    using truediv_total [of "884279719003555 / 2 ^ 48"] by (auto simp: math_pi_def)
  have "truediv (Fin y) earth_radius = Inr (Fin yr)"
    by (simp add: earth_radius_def yr(1))
  then have "mercator_to_lnglat e mx (Fin y) = Inr (lng, lat)"
    by (simp add: mercator_to_lnglat_def xr lng ex hp lat)
  then show ?thesis ..
qed

lemma py_sequence_succeeds:
  "(\<forall>m \<in> set ms. \<exists>v. m = Inr v) \<Longrightarrow> \<exists>vs. py_sequence ms = Inr vs \<and> length vs = length ms"
  by (induction ms) auto

lemma coarse_points_succeeds:
  assumes "math_exp_defined e 11" "\<bar>miny\<bar> \<le> 20037509" "\<bar>maxy\<bar> \<le> 20037509"
  shows "\<exists>points. coarse_points e (minx, Fin miny, maxx, Fin maxy) = Inr points
           \<and> length points = 9"
proof -
  obtain cx where cx: "truediv (fadd minx maxx) (Fin 2) = Inr cx"
    using truediv_total [of 2] by auto
  have "\<bar>miny + maxy\<bar> \<le> 40075018"
    using assms(2,3) by linarith
  then obtain c where c: "rnd (miny + maxy) = Fin c" "\<bar>c\<bar> \<le> 40075018 + 1"
    by (rule rnd_bounded) simp
  have "\<bar>c / 2\<bar> \<le> 20037510"
    using c(2) by simp
  then obtain cy where cy: "rnd (c / 2) = Fin cy" "\<bar>cy\<bar> \<le> 20037510 + 1"
    by (rule rnd_bounded) simp
  let ?ms = "[mercator_to_lnglat e cx (Fin cy),
           mercator_to_lnglat e minx (Fin miny),
           mercator_to_lnglat e maxx (Fin miny),
           mercator_to_lnglat e minx (Fin maxy),
           mercator_to_lnglat e maxx (Fin maxy),
           mercator_to_lnglat e cx (Fin miny),
           mercator_to_lnglat e cx (Fin maxy),
           mercator_to_lnglat e minx (Fin cy),
           mercator_to_lnglat e maxx (Fin cy)]"
  have eq: "coarse_points e (minx, Fin miny, maxx, Fin maxy) = py_sequence ?ms"
    by (simp add: coarse_points_def cx c(1) cy(1) del: py_sequence.simps)
  have ok: "\<exists>p. mercator_to_lnglat e mx (Fin y) = Inr p" if "\<bar>y\<bar> \<le> 20037511" for mx y
    using assms(1) that by (intro mercator_to_lnglat_succeeds) simp_all
  have y: "\<bar>miny\<bar> \<le> 20037511" "\<bar>maxy\<bar> \<le> 20037511" "\<bar>cy\<bar> \<le> 20037511"
    using assms(2,3) cy(2) by simp_all
  have "\<forall>m \<in> set ?ms. \<exists>v. m = Inr v"
    using ok y by simp
  then have "\<exists>vs. py_sequence ?ms = Inr vs \<and> length vs = length ?ms"
    by (rule py_sequence_succeeds)
  then obtain vs where vs: "py_sequence ?ms = Inr vs" "length vs = length ?ms"
    by blast
  from vs(2) have "length vs = 9"
    by simp
  moreover from eq vs(1) have "coarse_points e (minx, Fin miny, maxx, Fin maxy) = Inr vs"
    by (simp only:)
  ultimately show ?thesis
    by blast
qed

lemma edge_points_succeeds:
  assumes "math_exp_defined e 11" "\<bar>miny\<bar> \<le> 20037509" "\<bar>maxy\<bar> \<le> 20037509"
  shows "\<exists>edges. edge_points e (minx, Fin miny, maxx, Fin maxy) = Inr edges"
proof -
  have my: "\<exists>p. py_bind (interpolate (Fin miny) (Fin maxy) j) (\<lambda>my. mercator_to_lnglat e mx my) = Inr p"
    if j: "j \<le> 255" for j mx
  proof -
    obtain v where v: "interpolate (Fin miny) (Fin maxy) j = Inr (Fin v)" "\<bar>v\<bar> \<le> 60112531"
      using assms(2,3) j by (rule interpolate_bounded)
    from assms(1) v(2) obtain p where "mercator_to_lnglat e mx (Fin v) = Inr p"
      using mercator_to_lnglat_succeeds by blast
    with v(1) show ?thesis
      by simp
  qed
  have first: "\<exists>p. py_bind (interpolate minx maxx i) (\<lambda>mx.
            py_bind (interpolate (Fin miny) (Fin maxy) j) (\<lambda>my.
            mercator_to_lnglat e mx my)) = Inr p"
    if j: "j \<le> 255" for i j
  proof -
    obtain mx where "interpolate minx maxx i = Inr mx"
      using interpolate_total by blast
    then show ?thesis
      using my [OF j, of mx] by simp
  qed
  have steps: "j \<le> 255" if "j \<in> set sample_steps" for j
    using that by (auto simp: sample_steps_def)
  have "\<exists>vs. py_sequence (concat (map (\<lambda>i.
          map (\<lambda>j.
            py_bind (interpolate minx maxx i) (\<lambda>mx.
            py_bind (interpolate (Fin miny) (Fin maxy) j) (\<lambda>my.
            mercator_to_lnglat e mx my))) [0, 255]
          @ map (\<lambda>j.
            py_bind (interpolate (Fin miny) (Fin maxy) j) (\<lambda>my.
            mercator_to_lnglat e (if i = 0 then minx else maxx) my)) sample_steps)
          sample_steps)) = Inr vs \<and> length vs = length (concat (map (\<lambda>i.
          map (\<lambda>j.
            py_bind (interpolate minx maxx i) (\<lambda>mx.
            py_bind (interpolate (Fin miny) (Fin maxy) j) (\<lambda>my.
            mercator_to_lnglat e mx my))) [0, 255]
          @ map (\<lambda>j.
            py_bind (interpolate (Fin miny) (Fin maxy) j) (\<lambda>my.
            mercator_to_lnglat e (if i = 0 then minx else maxx) my)) sample_steps)
          sample_steps))"
  proof (rule py_sequence_succeeds, rule ballI)
    fix m
    assume "m \<in> set (concat (map (\<lambda>i.
          map (\<lambda>j.
            py_bind (interpolate minx maxx i) (\<lambda>mx.
            py_bind (interpolate (Fin miny) (Fin maxy) j) (\<lambda>my.
            mercator_to_lnglat e mx my))) [0, 255]
          @ map (\<lambda>j.
            py_bind (interpolate (Fin miny) (Fin maxy) j) (\<lambda>my.
            mercator_to_lnglat e (if i = 0 then minx else maxx) my)) sample_steps)
          sample_steps))"
    then obtain i where i: "i \<in> set sample_steps"
      "m \<in> set (map (\<lambda>j.
            py_bind (interpolate minx maxx i) (\<lambda>mx.
            py_bind (interpolate (Fin miny) (Fin maxy) j) (\<lambda>my.
            mercator_to_lnglat e mx my))) [0, 255])
       \<or> m \<in> set (map (\<lambda>j.
            py_bind (interpolate (Fin miny) (Fin maxy) j) (\<lambda>my.
            mercator_to_lnglat e (if i = 0 then minx else maxx) my)) sample_steps)"
      by auto
    from i(2) show "\<exists>v. m = Inr v"
    proof
      assume "m \<in> set (map (\<lambda>j.
            py_bind (interpolate minx maxx i) (\<lambda>mx.
            py_bind (interpolate (Fin miny) (Fin maxy) j) (\<lambda>my.
            mercator_to_lnglat e mx my))) [0, 255])"
      then obtain j where "j \<le> 255"
        "m = py_bind (interpolate minx maxx i) (\<lambda>mx.
            py_bind (interpolate (Fin miny) (Fin maxy) j) (\<lambda>my.
            mercator_to_lnglat e mx my))"
        by auto
      then show ?thesis
        using first by simp
    next
      assume "m \<in> set (map (\<lambda>j.
            py_bind (interpolate (Fin miny) (Fin maxy) j) (\<lambda>my.
            mercator_to_lnglat e (if i = 0 then minx else maxx) my)) sample_steps)"
      then obtain j where "j \<in> set sample_steps"
        "m = py_bind (interpolate (Fin miny) (Fin maxy) j) (\<lambda>my.
            mercator_to_lnglat e (if i = 0 then minx else maxx) my)"
        by auto
      then show ?thesis
        using my steps by simp
    qed
  qed
  then show ?thesis
    by (auto simp: edge_points_def)
qed

lemma calculate_bbox_bounded:
  assumes "z \<le> 51" "x < 2 ^ z" "y < 2 ^ z"
  obtains minx miny maxx maxy where
    "calculate_bbox z x y = Inr (Fin minx, Fin miny, Fin maxx, Fin maxy)"
    "\<bar>miny\<bar> \<le> 20037509" "\<bar>maxy\<bar> \<le> 20037509"
proof -
  obtain minx miny maxx maxy where b:
    "calculate_bbox z x y = Inr (Fin minx, Fin miny, Fin maxx, Fin maxy)"
    "\<bar>miny - (origin_shift - of_nat (y + 1) * tile_span z)\<bar> \<le> bbox_error"
    "\<bar>maxy - (origin_shift - of_nat y * tile_span z)\<bar> \<le> bbox_error"
    using assms by (rule calculate_bbox_in_range)
  have span: "2 ^ z * tile_span z = 2 * origin_shift" "0 \<le> tile_span z"
    by (simp_all add: tile_span_def origin_shift_def)
  have "real (y + 1) \<le> 2 ^ z"
    using assms(3) by (metis Suc_eq_plus1 Suc_leI of_nat_le_iff of_nat_numeral of_nat_power)
  then have "real (y + 1) * tile_span z \<le> 2 ^ z * tile_span z"
    using span(2) by (rule mult_right_mono)
  then have hi: "real (y + 1) * tile_span z \<le> 2 * origin_shift"
    by (simp only: span(1))
  have "real y * tile_span z \<le> real (y + 1) * tile_span z"
    using span(2) by (intro mult_right_mono) simp_all
  with hi have lo: "real y * tile_span z \<le> 2 * origin_shift"
    by linarith
  have nonneg: "0 \<le> real y * tile_span z" "0 \<le> real (y + 1) * tile_span z"
    using span(2) by simp_all
  have c: "origin_shift + bbox_error \<le> 20037509"
    by (simp add: origin_shift_def bbox_error_def)
  have "\<bar>miny\<bar> \<le> 20037509" "\<bar>maxy\<bar> \<le> 20037509"
    using b(2,3) hi lo nonneg c by linarith+
  with b(1) show ?thesis
    by (rule that)
qed

lemma projection_succeeds:
  assumes "z \<le> 51" "x < 2 ^ z" "y < 2 ^ z" "math_exp_defined e 11"
  obtains bb points edges where
    "calculate_bbox z x y = Inr bb" "coarse_points e bb = Inr points" "length points = 9"
    "edge_points e bb = Inr edges"
proof -
  obtain minx miny maxx maxy where b:
    "calculate_bbox z x y = Inr (Fin minx, Fin miny, Fin maxx, Fin maxy)"
    "\<bar>miny\<bar> \<le> 20037509" "\<bar>maxy\<bar> \<le> 20037509"
    using assms(1-3) by (rule calculate_bbox_bounded)
  obtain points where p:
    "coarse_points e (Fin minx, Fin miny, Fin maxx, Fin maxy) = Inr points" "length points = 9"
    using coarse_points_succeeds [OF assms(4) b(2,3)] by blast
  obtain edges where "edge_points e (Fin minx, Fin miny, Fin maxx, Fin maxy) = Inr edges"
    using edge_points_succeeds [OF assms(4) b(2,3)] by blast
  with b(1) p show ?thesis
    by (rule that)
qed

lemma libm_exp_defined: "a \<le> 11 \<Longrightarrow> \<exists>r. libm_exp (Fin a) = Inr r"
proof -
  assume "a \<le> 11"
  then have "exp a \<le> exp (of_nat 11 * 1)"
    by simp
  also have "\<dots> = exp 1 ^ 11"
    by (rule exp_of_nat_mult)
  also have "\<dots> \<le> 3 ^ 11"
    using exp_le by (intro power_mono) simp_all
  finally have "\<bar>exp a\<bar> \<le> 177147"
    by simp
  then obtain r where "rnd (exp a) = Fin r" "\<bar>r\<bar> \<le> 177147 + 1"
    by (rule rnd_bounded) simp
  then show ?thesis
    by (simp add: libm_exp_def)
qed

lemma math_exp_defined_sample_env [simp]: "math_exp_defined (sample_env items) 11"
  by (simp add: math_exp_defined_def sample_env_def libm_exp_defined)

section \<open>The order of the strategies\<close>

text \<open>
  Claim C3. For every tile with \<open>z \<ge> 6\<close> whose nine sample points are computed: if
  their matching yields at least one code (which is the case exactly when some
  geometry contains some sample point), \<open>get_province_group\<close> returns the expansion
  of that set and prints nothing. Both later strategies start by printing a line, the
  perimeter sampling \<^verbatim>\<open>No province matched\<close> and the heuristic
  \<^verbatim>\<open>Still no province matched\<close>, so neither was run. Likewise, if the nine points
  match nothing and the perimeter points yield a code, the result is the expansion of
  that code and only the first line is printed: the heuristic was not run.
\<close>

theorem first_successful_strategy_wins:
  assumes "6 \<le> z" "calculate_bbox z x y = Inr bb" "coarse_points e bb = Inr points"
  shows "(match_points (province_geometries e) points [] \<noteq> [] \<longrightarrow>
           get_province_group e z x y =
             ([], Inr (group_expansion e (match_points (province_geometries e) points []))))
     \<and> (match_points (province_geometries e) points [] \<noteq> [] \<longleftrightarrow>
           (\<exists>p \<in> set points. \<exists>(code, g) \<in> set (province_geometries e). g p))
     \<and> (\<forall>edges.
           match_points (province_geometries e) points [] = []
           \<and> edge_points e bb = Inr edges
           \<and> match_edge_points (province_geometries e) edges [] \<noteq> [] \<longrightarrow>
           get_province_group e z x y =
             ([No_province_matched z x y],
              Inr (group_expansion e (match_edge_points (province_geometries e) edges []))))"
proof (intro conjI impI allI)
  assume "match_points (province_geometries e) points [] \<noteq> []"
  with assms show "get_province_group e z x y =
             ([], Inr (group_expansion e (match_points (province_geometries e) points [])))"
    by (rule get_province_group_coarse)
next
  show "match_points (province_geometries e) points [] \<noteq> [] \<longleftrightarrow>
           (\<exists>p \<in> set points. \<exists>(code, g) \<in> set (province_geometries e). g p)"
    by (auto simp: match_points_Nil_iff first_containing_None_iff)
next
  fix edges
  assume "match_points (province_geometries e) points [] = []
           \<and> edge_points e bb = Inr edges
           \<and> match_edge_points (province_geometries e) edges [] \<noteq> []"
  with assms show "get_province_group e z x y =
             ([No_province_matched z x y],
              Inr (group_expansion e (match_edge_points (province_geometries e) edges [])))"
    using get_province_group_dense [of z x y bb e points edges] by simp
qed

section \<open>The nine sample points\<close>

text \<open>
  Claim C1, as amended. For every tile with \<open>z \<ge> 6\<close> whose nine sample points are
  computed, the matched set after the coarse phase holds a code exactly when, for at
  least one sample point, it is the first code in the order of \<open>province_geometries\<close>
  whose geometry contains that point: of several geometries that contain one point
  only the first is recorded for it. Where no sample point lies in two geometries,
  the matched set is the set of all codes whose geometry contains a sample point.
\<close>

theorem coarse_sampling_records_first_match:
  assumes "6 \<le> z" "calculate_bbox z x y = Inr bb" "coarse_points e bb = Inr points"
  shows "coarse_matched e z x y = Inr (match_points (province_geometries e) points [])
     \<and> (\<forall>code. code \<in> set (match_points (province_geometries e) points []) \<longleftrightarrow>
           (\<exists>p \<in> set points. \<exists>i < length (province_geometries e).
              fst (province_geometries e ! i) = code \<and> snd (province_geometries e ! i) p
              \<and> (\<forall>j < i. \<not> snd (province_geometries e ! j) p)))
     \<and> ((\<forall>p \<in> set points. \<forall>i j. i < length (province_geometries e)
              \<and> j < length (province_geometries e)
              \<and> snd (province_geometries e ! i) p \<and> snd (province_geometries e ! j) p
              \<longrightarrow> i = j) \<longrightarrow>
         set (match_points (province_geometries e) points []) =
           {code. \<exists>g. (code, g) \<in> set (province_geometries e) \<and> (\<exists>p \<in> set points. g p)})"
proof (intro conjI allI impI)
  let ?items = "province_geometries e"
  show "coarse_matched e z x y = Inr (match_points ?items points [])"
    using assms by (simp add: coarse_matched_def)
  show first: "code \<in> set (match_points ?items points []) \<longleftrightarrow>
           (\<exists>p \<in> set points. \<exists>i < length ?items.
              fst (?items ! i) = code \<and> snd (?items ! i) p \<and> (\<forall>j < i. \<not> snd (?items ! j) p))"
    for code
    by (simp add: set_match_points first_containing_Some_iff)
  assume apart: "\<forall>p \<in> set points. \<forall>i j. i < length ?items \<and> j < length ?items
              \<and> snd (?items ! i) p \<and> snd (?items ! j) p \<longrightarrow> i = j"
  show "set (match_points ?items points []) =
           {code. \<exists>g. (code, g) \<in> set ?items \<and> (\<exists>p \<in> set points. g p)}"
  proof (intro set_eqI iffI)
    fix code
    assume "code \<in> set (match_points ?items points [])"
    then obtain p i where pi: "p \<in> set points" "i < length ?items"
      "fst (?items ! i) = code" "snd (?items ! i) p"
      unfolding first by blast
    then have "(code, snd (?items ! i)) \<in> set ?items"
      by (metis nth_mem prod.collapse)
    with pi show "code \<in> {code. \<exists>g. (code, g) \<in> set ?items \<and> (\<exists>p \<in> set points. g p)}"
      by blast
  next
    fix code
    assume "code \<in> {code. \<exists>g. (code, g) \<in> set ?items \<and> (\<exists>p \<in> set points. g p)}"
    then obtain g p where gp: "(code, g) \<in> set ?items" "p \<in> set points" "g p"
      by blast
    then obtain i where i: "i < length ?items" "?items ! i = (code, g)"
      by (auto simp: in_set_conv_nth)
    have "\<forall>j < i. \<not> snd (?items ! j) p"
    proof (intro allI impI notI)
      fix j assume "j < i" "snd (?items ! j) p"
      with apart gp(2,3) i have "i = j"
        by (auto dest!: bspec [of _ _ p])
      with \<open>j < i\<close> show False by simp
    qed
    with gp i show "code \<in> set (match_points ?items points [])"
      unfolding first by (intro bexI [of _ p] exI [of _ i]) simp_all
  qed
qed

section \<open>An empty result\<close>

text \<open>
  Claim C7. When the nine sample points of a tile with \<open>z \<ge> 6\<close> match a non-empty set
  of codes none of which is in the group table, \<open>get_province_group\<close> returns the
  empty list: every code maps to \<^verbatim>\<open>'unknown'\<close>, which has no codes. The witness below
  is such a run: a Region Index whose only geometry carries the code 11.
\<close>

theorem unknown_codes_give_empty_result:
  assumes "6 \<le> z" "calculate_bbox z x y = Inr bb" "coarse_points e bb = Inr points"
    and "set_order_ok e"
    and "match_points (province_geometries e) points [] \<noteq> []"
    and "\<forall>code \<in> set (match_points (province_geometries e) points []). CODE_TO_GROUP code = None"
  shows "get_province_group e z x y = ([], Inr [])"
proof -
  let ?matched = "match_points (province_geometries e) points []"
  have d: "distinct ?matched"
    by (rule distinct_match_points) simp
  have "set (group_expansion e ?matched) = {}"
    unfolding set_group_expansion [OF assms(4) d]
    using assms(6) by (fastforce simp: CODE_TO_GROUP_None_iff all_province_codes_def)
  then have "group_expansion e ?matched = []"
    by simp
  with get_province_group_coarse [OF assms(1-3,5)] show ?thesis
    by simp
qed

section \<open>No match at all\<close>

text \<open>
  Claim C5. For every tile with \<open>z \<ge> 6\<close> whose sample points, the nine and those of
  the perimeter, are computed and lie in no geometry, \<open>get_province_group\<close> prints
  its two lines and returns the list of the group that the buckets of
  \<open>fallback_group\<close> choose for the center point, the first sample point; that list is
  the list of a group of the table and is not empty. Nothing is raised. The sample
  points are computed for every tile in range with \<open>6 \<le> z \<le> 51\<close>, provided
  \<^verbatim>\<open>math.exp\<close> raises nothing up to 11: with geometries that contain no point at
  all (an empty Region Index, say) every such tile ends in the heuristic group.
\<close>

theorem no_match_ends_in_heuristic_group:
  "(\<forall>bb points edges.
      6 \<le> z \<and> calculate_bbox z x y = Inr bb \<and> coarse_points e bb = Inr points
      \<and> edge_points e bb = Inr edges
      \<and> (\<forall>p \<in> set points \<union> set edges. \<forall>(code, g) \<in> set (province_geometries e). \<not> g p)
      \<longrightarrow> (\<exists>group codes. (group, codes) \<in> set PROVINCE_GROUPS \<and> codes \<noteq> []
             \<and> fallback_group (points ! 0) = Inr codes
             \<and> get_province_group e z x y =
                 ([No_province_matched z x y, Still_no_province_matched z x y], Inr codes)))
   \<and> (6 \<le> z \<and> z \<le> 51 \<and> x < 2 ^ z \<and> y < 2 ^ z \<and> math_exp_defined e 11
       \<and> (\<forall>p. \<forall>(code, g) \<in> set (province_geometries e). \<not> g p)
       \<longrightarrow> (\<exists>group codes. (group, codes) \<in> set PROVINCE_GROUPS \<and> codes \<noteq> []
             \<and> get_province_group e z x y =
                 ([No_province_matched z x y, Still_no_province_matched z x y], Inr codes)))"
proof (intro conjI allI impI)
  fix bb points edges
  assume a: "6 \<le> z \<and> calculate_bbox z x y = Inr bb \<and> coarse_points e bb = Inr points
      \<and> edge_points e bb = Inr edges
      \<and> (\<forall>p \<in> set points \<union> set edges. \<forall>(code, g) \<in> set (province_geometries e). \<not> g p)"
  then have none: "match_points (province_geometries e) points [] = []"
    "match_edge_points (province_geometries e) edges [] = []"
    by (simp_all add: match_points_Nil_iff match_edge_points_Nil_iff first_containing_None_iff)
  with a have "get_province_group e z x y =
      ([No_province_matched z x y, Still_no_province_matched z x y], fallback_group (points ! 0))"
    using get_province_group_fallback [of z x y bb e points edges] by simp
  then show "\<exists>group codes. (group, codes) \<in> set PROVINCE_GROUPS \<and> codes \<noteq> []
             \<and> fallback_group (points ! 0) = Inr codes
             \<and> get_province_group e z x y =
                 ([No_province_matched z x y, Still_no_province_matched z x y], Inr codes)"
    using fallback_group_nonempty [of "points ! 0"] by auto
next
  assume a: "6 \<le> z \<and> z \<le> 51 \<and> x < 2 ^ z \<and> y < 2 ^ z \<and> math_exp_defined e 11
       \<and> (\<forall>p. \<forall>(code, g) \<in> set (province_geometries e). \<not> g p)"
  then obtain bb points edges where p:
    "calculate_bbox z x y = Inr bb" "coarse_points e bb = Inr points" "length points = 9"
    "edge_points e bb = Inr edges"
    using projection_succeeds [of z x y e] by blast
  from a have "\<forall>p. first_containing (province_geometries e) p = None"
    by (simp only: first_containing_None_iff) blast
  then have none: "match_points (province_geometries e) points [] = []"
    "match_edge_points (province_geometries e) edges [] = []"
    by (auto simp: match_points_Nil_iff match_edge_points_Nil_iff)
  with a p have "get_province_group e z x y =
      ([No_province_matched z x y, Still_no_province_matched z x y], fallback_group (points ! 0))"
    using get_province_group_fallback [of z x y bb e points edges] by simp
  then show "\<exists>group codes. (group, codes) \<in> set PROVINCE_GROUPS \<and> codes \<noteq> []
             \<and> get_province_group e z x y =
                 ([No_province_matched z x y, Still_no_province_matched z x y], Inr codes)"
    using fallback_group_nonempty [of "points ! 0"] by auto
qed

section \<open>Sample runs\<close>

lemma py_bind_eq_Inr: "py_bind m f = Inr v \<longleftrightarrow> (\<exists>a. m = Inr a \<and> f a = Inr v)"
  by (cases m) simp_all

lemma mercator_longitude:
  "mercator_to_lnglat e x y = Inr p \<Longrightarrow> longitude_of x = Inr (fst p)"
  by (auto simp: mercator_to_lnglat_def longitude_of_def py_bind_eq_Inr)

lemma coarse_points_center:
  assumes "coarse_points e (minx, miny, maxx, maxy) = Inr points"
  shows "\<exists>center_x. truediv (fadd minx maxx) (Fin 2) = Inr center_x
           \<and> longitude_of center_x = Inr (fst (points ! 0))"
proof -
  from assms obtain center_x center_y p ps where
    c: "truediv (fadd minx maxx) (Fin 2) = Inr center_x"
      "mercator_to_lnglat e center_x center_y = Inr p" "points = p # ps"
    by (auto simp: coarse_points_def py_bind_eq_Inr)
  from c(2) have "longitude_of center_x = Inr (fst p)"
    by (rule mercator_longitude)
  with c show ?thesis
    by simp
qed

lemma match_points_everywhere:
  "match_points ((code, \<lambda>p. True) # items) points matched =
     (if points = [] then matched else set_add matched code)"
  by (induction points arbitrary: matched) (auto simp: set_add_def)

lemma sample_tile_projects:
  obtains bb points where
    "calculate_bbox 6 52 25 = Inr bb" "coarse_points (sample_env items) bb = Inr points"
    "length points = 9"
proof -
  have "(6::nat) \<le> 51" "(52::nat) < 2 ^ 6" "(25::nat) < 2 ^ 6"
    by simp_all
  then obtain bb points edges where
    "calculate_bbox 6 52 25 = Inr bb" "coarse_points (sample_env items) bb = Inr points"
    "length points = 9"
    using math_exp_defined_sample_env by (rule projection_succeeds)
  then show ?thesis
    by (rule that)
qed

lemma province_geometries_sample_env [simp]:
  "province_geometries (sample_env items) = items"
  by (simp add: sample_env_def)

lemma group_expansion_41:
  "group_expansion (sample_env items) [''41''] = [''41'', ''42'', ''43'', ''44'', ''45'', ''46'']"
  by (simp add: group_expansion_def sample_env_def group_of_def CODE_TO_GROUP_def
      set_add_def province_group_get_def PROVINCE_GROUPS_def)

text \<open>
  Counterexample to C1 as stated (all codes whose geometry contains a sample point
  are kept): a Region Index with two geometries, 41 stored first and 37 second, each
  containing every point, and the tile \<open>(6, 52, 25)\<close>. Every sample point lies in
  both geometries; for each point the inner loop adds 41 and breaks, so the matched
  set is 41 alone and the result is the group of 41, without 37 and its group.
\<close>

theorem overlapping_geometries_single_winner:
  "coarse_matched (sample_env [(''41'', \<lambda>p. True), (''37'', \<lambda>p. True)]) 6 52 25 = Inr [''41'']
   \<and> get_province_group (sample_env [(''41'', \<lambda>p. True), (''37'', \<lambda>p. True)]) 6 52 25
       = ([], Inr [''41'', ''42'', ''43'', ''44'', ''45'', ''46''])
   \<and> ''37'' \<notin> set [''41'', ''42'', ''43'', ''44'', ''45'', ''46'']"
proof -
  let ?e = "sample_env [(''41'', \<lambda>p. True), (''37'', \<lambda>p. True)]"
  obtain bb points where p:
    "calculate_bbox 6 52 25 = Inr bb" "coarse_points ?e bb = Inr points" "length points = 9"
    by (rule sample_tile_projects)
  from p(3) have m: "match_points (province_geometries ?e) points [] = [''41'']"
    by (auto simp: match_points_everywhere set_add_def)
  then have "coarse_matched ?e 6 52 25 = Inr [''41'']"
    by (simp add: coarse_matched_def p)
  moreover have "get_province_group ?e 6 52 25 = ([], Inr (group_expansion ?e [''41'']))"
    using get_province_group_coarse [of 6 52 25 bb ?e points] p m by simp
  ultimately show ?thesis
    by (simp add: group_expansion_41)
qed

text \<open>Witness for C1: one geometry, which contains every sample point of the tile.\<close>

theorem coarse_sampling_records_first_match_witness:
  "coarse_matched (sample_env [(''41'', \<lambda>p. True)]) 6 52 25 = Inr [''41'']"
proof -
  let ?e = "sample_env [(''41'', \<lambda>p. True)]"
  obtain bb points where p:
    "calculate_bbox 6 52 25 = Inr bb" "coarse_points ?e bb = Inr points" "length points = 9"
    by (rule sample_tile_projects)
  have "(6::nat) \<le> 6"
    by simp
  from coarse_sampling_records_first_match [OF this p(1,2)]
  have "coarse_matched ?e 6 52 25 = Inr (match_points (province_geometries ?e) points [])"
    by (rule conjunct1)
  moreover from p(3) have "match_points (province_geometries ?e) points [] = [''41'']"
    by (auto simp: match_points_everywhere set_add_def)
  ultimately show ?thesis
    by simp
qed

text \<open>
  The tile \<open>(6, 52, 25)\<close> spans the longitudes 112.5 to 118.125. None of the three
  longitudes of its nine sample points is in the strip, and the perimeter point with
  \<open>i = 10\<close>, at longitude 112.7197265625, is.
\<close>

lemma calculate_bbox_6_52_25:
  "calculate_bbox 6 52 25 =
     Inr (Fin (840434013921943 / 67108864), Fin (2017041633412663 / 536870912),
          Fin (110306964327255 / 8388608), Fin (36768988109085 / 8388608))"
  by (simp add: calculate_bbox_def float_eval)

lemma center_6_52_25:
  "truediv (fadd (Fin (840434013921943 / 67108864)) (Fin (110306964327255 / 8388608))) (Fin 2)
     = Inr (Fin (1722889728539983 / 134217728))"
  by (simp add: float_eval)

lemma longitudes_6_52_25:
  "longitude_of (Fin (1722889728539983 / 134217728)) = Inr (Fin (4057197906493441 / 35184372088832))"
  "longitude_of (Fin (840434013921943 / 67108864)) = Inr (Fin (7916483719987201 / 70368744177664))"
  "longitude_of (Fin (110306964327255 / 8388608)) = Inr (Fin (8312307905986561 / 70368744177664))"
  "longitude_of (Fin (3368301946421537 / 268435456)) = Inr (Fin (115425 / 1024))"
  by (simp_all add: longitude_of_def float_eval)

lemma interpolate_6_52_25:
  "interpolate (Fin (840434013921943 / 67108864)) (Fin (110306964327255 / 8388608)) 10
     = Inr (Fin (3368301946421537 / 268435456))"
  by (simp add: interpolate_def float_eval)

lemma strip_112_7_longitudes:
  "\<not> strip_112_7 (Fin (4057197906493441 / 35184372088832), lat)"
  "\<not> strip_112_7 (Fin (7916483719987201 / 70368744177664), lat)"
  "\<not> strip_112_7 (Fin (8312307905986561 / 70368744177664), lat)"
  "strip_112_7 (Fin (115425 / 1024), lat)"
  by (simp_all add: strip_112_7_def)

lemma coarse_points_longitudes:
  assumes "coarse_points e (minx, miny, maxx, maxy) = Inr points"
  shows "\<exists>center_x. truediv (fadd minx maxx) (Fin 2) = Inr center_x
           \<and> (\<forall>p \<in> set points.
                 longitude_of center_x = Inr (fst p) \<or> longitude_of minx = Inr (fst p)
                 \<or> longitude_of maxx = Inr (fst p))"
proof -
  from assms obtain center_x where c: "truediv (fadd minx maxx) (Fin 2) = Inr center_x"
    by (auto simp: coarse_points_def py_bind_eq_Inr)
  have "longitude_of center_x = Inr (fst p) \<or> longitude_of minx = Inr (fst p)
          \<or> longitude_of maxx = Inr (fst p)" if "p \<in> set points" for p
  proof -
    from assms c that have "\<exists>mx my. (mx = center_x \<or> mx = minx \<or> mx = maxx)
        \<and> mercator_to_lnglat e mx my = Inr p"
      by (fastforce simp: coarse_points_def py_bind_eq_Inr)
    then show ?thesis
      using mercator_longitude [of e _ _ p] by blast
  qed
  with c show ?thesis
    by blast
qed

lemma py_sequence_member:
  "py_sequence ms = Inr vs \<Longrightarrow> m \<in> set ms \<Longrightarrow> \<exists>v \<in> set vs. m = Inr v"
  by (induction ms arbitrary: vs) (auto simp: py_bind_eq_Inr)

lemma edge_points_tenth:
  assumes "edge_points e (minx, miny, maxx, maxy) = Inr edges"
  shows "\<exists>p \<in> set edges. \<exists>mx. interpolate minx maxx 10 = Inr mx \<and> longitude_of mx = Inr (fst p)"
proof -
  let ?m = "py_bind (interpolate minx maxx 10) (\<lambda>mx.
            py_bind (interpolate miny maxy 0) (\<lambda>my. mercator_to_lnglat e mx my))"
  let ?ms = "concat (map (\<lambda>i.
          map (\<lambda>j.
            py_bind (interpolate minx maxx i) (\<lambda>mx.
            py_bind (interpolate miny maxy j) (\<lambda>my.
            mercator_to_lnglat e mx my))) [0, 255]
          @ map (\<lambda>j.
            py_bind (interpolate miny maxy j) (\<lambda>my.
            mercator_to_lnglat e (if i = 0 then minx else maxx) my)) sample_steps)
          sample_steps)"
  have "10 \<in> set sample_steps"
    by (simp add: sample_steps_def image_iff)
  then have "?m \<in> set ?ms"
    by (simp del: set_concat add: set_concat) (intro bexI [of _ 10], simp_all)
  moreover have "py_sequence ?ms = Inr edges"
    using assms by (simp add: edge_points_def)
  ultimately obtain p where p: "p \<in> set edges" "?m = Inr p"
    using py_sequence_member by blast
  from p(2) obtain mx my where "interpolate minx maxx 10 = Inr mx"
    "mercator_to_lnglat e mx my = Inr p"
    by (auto simp: py_bind_eq_Inr)
  then have "interpolate minx maxx 10 = Inr mx \<and> longitude_of mx = Inr (fst p)"
    using mercator_longitude by blast
  with p(1) show ?thesis
    by blast
qed

lemma strip_tile_matching:
  obtains bb points edges where
    "calculate_bbox 6 52 25 = Inr bb"
    "coarse_points (sample_env [(''41'', strip_112_7)]) bb = Inr points"
    "match_points (province_geometries (sample_env [(''41'', strip_112_7)])) points [] = []"
    "edge_points (sample_env [(''41'', strip_112_7)]) bb = Inr edges"
    "match_edge_points (province_geometries (sample_env [(''41'', strip_112_7)])) edges []
       = [''41'']"
proof -
  let ?e = "sample_env [(''41'', strip_112_7)]"
  let ?minx = "Fin (840434013921943 / 67108864)"
  let ?maxx = "Fin (110306964327255 / 8388608)"
  have "(6::nat) \<le> 51" "(52::nat) < 2 ^ 6" "(25::nat) < 2 ^ 6"
    by simp_all
  then obtain bb points edges where p:
    "calculate_bbox 6 52 25 = Inr bb" "coarse_points ?e bb = Inr points" "length points = 9"
    "edge_points ?e bb = Inr edges"
    using math_exp_defined_sample_env by (rule projection_succeeds)
  from p(1) have bb: "bb = (?minx, Fin (2017041633412663 / 536870912),
          ?maxx, Fin (36768988109085 / 8388608))"
    by (simp add: calculate_bbox_6_52_25)
  obtain center_x where c: "truediv (fadd ?minx ?maxx) (Fin 2) = Inr center_x"
    and lngs: "\<forall>p \<in> set points.
                 longitude_of center_x = Inr (fst p) \<or> longitude_of ?minx = Inr (fst p)
                 \<or> longitude_of ?maxx = Inr (fst p)"
    using coarse_points_longitudes [OF p(2) [unfolded bb]] by blast
  from c have cx: "center_x = Fin (1722889728539983 / 134217728)"
    by (simp only: center_6_52_25 sum.inject)
  have outside: "\<not> strip_112_7 q" if "q \<in> set points" for q
  proof -
    from lngs that have "fst q \<in> {Fin (4057197906493441 / 35184372088832),
        Fin (7916483719987201 / 70368744177664), Fin (8312307905986561 / 70368744177664)}"
      by (auto simp only: cx longitudes_6_52_25 sum.inject insert_iff)
    then show ?thesis
      using strip_112_7_longitudes(1-3) [of "snd q"] by (cases q) auto
  qed
  then have coarse: "match_points (province_geometries ?e) points [] = []"
    by (simp add: match_points_Nil_iff)
  obtain q mx where q: "q \<in> set edges" "interpolate ?minx ?maxx 10 = Inr mx"
    "longitude_of mx = Inr (fst q)"
    using edge_points_tenth [OF p(4) [unfolded bb]] by blast
  from q(2) have "mx = Fin (3368301946421537 / 268435456)"
    by (simp only: interpolate_6_52_25 sum.inject)
  with q(3) have "fst q = Fin (115425 / 1024)"
    by (simp only: longitudes_6_52_25 sum.inject)
  then have "strip_112_7 q"
    using strip_112_7_longitudes(4) [of "snd q"] by (cases q) simp
  with q(1) have "match_edge_points (province_geometries ?e) edges [] \<noteq> []"
    by (auto simp: match_edge_points_Nil_iff)
  then have "match_edge_points (province_geometries ?e) edges [] = [''41'']"
    using match_edge_points_single [of "province_geometries ?e" edges]
    by (auto split: if_splits)
  with p coarse show ?thesis
    by (rule_tac that)
qed

text \<open>
  Witness for C3: where the geometry of 41 is everywhere, the nine points match it,
  the result is its group and nothing is printed; where it is the strip, the nine
  points match nothing, the perimeter matches 41, and only the first line is printed.
\<close>

theorem first_successful_strategy_wins_witness:
  "get_province_group (sample_env [(''41'', \<lambda>p. True)]) 6 52 25
     = ([], Inr [''41'', ''42'', ''43'', ''44'', ''45'', ''46''])
   \<and> get_province_group (sample_env [(''41'', strip_112_7)]) 6 52 25
     = ([No_province_matched 6 52 25], Inr [''41'', ''42'', ''43'', ''44'', ''45'', ''46''])"
proof
  let ?e = "sample_env [(''41'', \<lambda>p. True)]"
  obtain bb points where p:
    "calculate_bbox 6 52 25 = Inr bb" "coarse_points ?e bb = Inr points" "length points = 9"
    by (rule sample_tile_projects)
  from p(3) have m: "match_points (province_geometries ?e) points [] = [''41'']"
    by (auto simp: match_points_everywhere set_add_def)
  have "(6::nat) \<le> 6"
    by simp
  from first_successful_strategy_wins [OF this p(1,2)]
  have "match_points (province_geometries ?e) points [] \<noteq> [] \<longrightarrow>
           get_province_group ?e 6 52 25 =
             ([], Inr (group_expansion ?e (match_points (province_geometries ?e) points [])))"
    by (rule conjunct1)
  with m show "get_province_group ?e 6 52 25
     = ([], Inr [''41'', ''42'', ''43'', ''44'', ''45'', ''46''])"
    by (simp add: group_expansion_41)
next
  let ?e = "sample_env [(''41'', strip_112_7)]"
  obtain bb points edges where p:
    "calculate_bbox 6 52 25 = Inr bb" "coarse_points ?e bb = Inr points"
    "match_points (province_geometries ?e) points [] = []"
    "edge_points ?e bb = Inr edges"
    "match_edge_points (province_geometries ?e) edges [] = [''41'']"
    by (rule strip_tile_matching)
  have "(6::nat) \<le> 6"
    by simp
  from first_successful_strategy_wins [OF this p(1,2)]
  have "match_points (province_geometries ?e) points [] = []
           \<and> edge_points ?e bb = Inr edges
           \<and> match_edge_points (province_geometries ?e) edges [] \<noteq> [] \<longrightarrow>
           get_province_group ?e 6 52 25 =
             ([No_province_matched 6 52 25],
              Inr (group_expansion ?e (match_edge_points (province_geometries ?e) edges [])))"
    by blast
  with p show "get_province_group ?e 6 52 25
     = ([No_province_matched 6 52 25], Inr [''41'', ''42'', ''43'', ''44'', ''45'', ''46''])"
    by (simp add: group_expansion_41)
qed

text \<open>
  Witness for C7: the only geometry of the Region Index carries the code 11, which
  is in no group; the tile \<open>(6, 52, 24)\<close> resolves to the empty list.
\<close>

theorem unknown_codes_give_empty_result_witness:
  "get_province_group (sample_env [(''11'', \<lambda>p. True)]) 6 52 24 = ([], Inr [])
   \<and> CODE_TO_GROUP ''11'' = None"
proof -
  let ?e = "sample_env [(''11'', \<lambda>p. True)]"
  have "(6::nat) \<le> 51" "(52::nat) < 2 ^ 6" "(24::nat) < 2 ^ 6"
    by simp_all
  then obtain bb points edges where p:
    "calculate_bbox 6 52 24 = Inr bb" "coarse_points ?e bb = Inr points" "length points = 9"
    using math_exp_defined_sample_env by (rule projection_succeeds)
  from p(3) have m: "match_points (province_geometries ?e) points [] = [''11'']"
    by (auto simp: match_points_everywhere set_add_def)
  have n: "CODE_TO_GROUP ''11'' = None"
    by (simp add: CODE_TO_GROUP_None_iff all_province_codes_eval)
  have "get_province_group ?e 6 52 24 = ([], Inr [])"
  proof (rule unknown_codes_give_empty_result [OF _ p(1,2)])
    show "(6::nat) \<le> 6" by simp
    show "set_order_ok ?e" by simp
    show "match_points (province_geometries ?e) points [] \<noteq> []"
      by (simp only: m) simp
    show "\<forall>code \<in> set (match_points (province_geometries ?e) points []). CODE_TO_GROUP code = None"
      by (simp only: m) (simp add: n)
  qed
  with n show ?thesis
    by simp
qed

text \<open>
  Witness for C5: an empty Region Index and the tile \<open>(6, 60, 30)\<close>, in the Pacific.
  The longitude of its center, about 160.3, is in none of the buckets below 125, so
  the heuristic returns the group north whatever the latitude.
\<close>

lemma calculate_bbox_6_60_30:
  "calculate_bbox 6 60 30 =
     Inr (Fin (4706430477962881 / 268435456), Fin (168086802784389 / 268435456),
          Fin (4874517280747269 / 268435456), Fin (336173605568777 / 268435456))"
  by (simp add: calculate_bbox_def float_eval)

lemma center_6_60_30:
  "truediv (fadd (Fin (4706430477962881 / 268435456)) (Fin (4874517280747269 / 268435456))) (Fin 2)
     = Inr (Fin (4790473879355075 / 268435456))"
  by (simp add: float_eval)

lemma longitude_6_60_30:
  "longitude_of (Fin (4790473879355075 / 268435456))
     = Inr (Fin (5640494650490881 / 35184372088832))"
  by (simp add: longitude_of_def float_eval)

lemma fallback_group_east_of_125:
  "125 \<le> lng \<Longrightarrow> fallback_group (Fin lng, lat) = Inr [''12'', ''13'', ''14'', ''15'']"
  by (simp add: fallback_group_def province_group_def PROVINCE_GROUPS_def)

theorem no_match_ends_in_heuristic_group_witness:
  "get_province_group (sample_env []) 6 60 30
     = ([No_province_matched 6 60 30, Still_no_province_matched 6 60 30],
        Inr [''12'', ''13'', ''14'', ''15''])"
proof -
  let ?e = "sample_env []"
  let ?bb = "(Fin (4706430477962881 / 268435456), Fin (168086802784389 / 268435456),
          Fin (4874517280747269 / 268435456), Fin (336173605568777 / 268435456))"
  have r: "(6::nat) \<le> 51" "(60::nat) < 2 ^ 6" "(30::nat) < 2 ^ 6"
    by simp_all
  then obtain bb points edges where p:
    "calculate_bbox 6 60 30 = Inr bb" "coarse_points ?e bb = Inr points" "length points = 9"
    "edge_points ?e bb = Inr edges"
    using math_exp_defined_sample_env by (rule projection_succeeds)
  from p(1) have bb: "bb = ?bb"
    by (simp add: calculate_bbox_6_60_30)
  obtain center_x where c: "truediv (fadd (Fin (4706430477962881 / 268435456))
        (Fin (4874517280747269 / 268435456))) (Fin 2) = Inr center_x"
      "longitude_of center_x = Inr (fst (points ! 0))"
    using coarse_points_center [OF p(2) [unfolded bb]] by blast
  from c(1) have "center_x = Fin (4790473879355075 / 268435456)"
    by (simp only: center_6_60_30 sum.inject)
  with c(2) have "fst (points ! 0) = Fin (5640494650490881 / 35184372088832)"
    by (simp only: longitude_6_60_30 sum.inject)
  then obtain lat where "points ! 0 = (Fin (5640494650490881 / 35184372088832), lat)"
    by (cases "points ! 0") simp
  then have f: "fallback_group (points ! 0) = Inr [''12'', ''13'', ''14'', ''15'']"
    by (simp add: fallback_group_east_of_125)
  have empty: "\<forall>p \<in> set points \<union> set edges. \<forall>(code, g) \<in> set (province_geometries ?e). \<not> g p"
    by simp
  from no_match_ends_in_heuristic_group [of 6 60 30 ?e]
  have "\<forall>bb points edges.
      (6::nat) \<le> 6 \<and> calculate_bbox 6 60 30 = Inr bb \<and> coarse_points ?e bb = Inr points
      \<and> edge_points ?e bb = Inr edges
      \<and> (\<forall>p \<in> set points \<union> set edges. \<forall>(code, g) \<in> set (province_geometries ?e). \<not> g p)
      \<longrightarrow> (\<exists>group codes. (group, codes) \<in> set PROVINCE_GROUPS \<and> codes \<noteq> []
             \<and> fallback_group (points ! 0) = Inr codes
             \<and> get_province_group ?e 6 60 30 =
                 ([No_province_matched 6 60 30, Still_no_province_matched 6 60 30], Inr codes))"
    by (rule conjunct1)
  with p empty obtain codes where "fallback_group (points ! 0) = Inr codes"
    "get_province_group ?e 6 60 30 =
       ([No_province_matched 6 60 30, Still_no_province_matched 6 60 30], Inr codes)"
    by blast
  with f show ?thesis
    by simp
qed

end
